theory Spec2Isabelle
  imports Complex_Main "HOL-Library.Signed_Division" "HOL-Library.Word"
begin

chapter \<open>The mmx media server extension: embedding\<close>

text \<open>
  A shallow embedding of the parts of the mmx repository (a mediamtx fork) that the
  verified properties are about: the SRT and WHIP forwarders
  (\<^verbatim>\<open>internal/forwarder/manager.go\<close>), the transcoder static source and manager
  (\<^verbatim>\<open>internal/staticsources/transcoder/source.go\<close>,
  \<^verbatim>\<open>internal/transcoder/manager.go\<close>), the simulcast aggregation source, and the
  browser-side WHEP reader and adaptive player (\<^verbatim>\<open>mmxplayer/\<close>).

  Go pointers are references (natural numbers) wrapped in \<open>option\<close> (\<open>None\<close> is
  \<^verbatim>\<open>nil\<close>); Go's \<^verbatim>\<open>int\<close> is a 64-bit two's complement integer, modelled as
  \<open>int\<close> with the wrap-around written out; goroutines are program counters that an
  event advances by one atomic step; errors are values.
\<close>

section \<open>Go integers\<close>

definition int64_wrap :: "int \<Rightarrow> int" where
  "int64_wrap x = (x + 2 ^ 63) mod 2 ^ 64 - 2 ^ 63"

text \<open>Go's \<^verbatim>\<open>/\<close> on integers truncates towards zero: \<open>sdiv\<close> on \<open>int\<close>.\<close>

definition go_div :: "int \<Rightarrow> int \<Rightarrow> int" where
  "go_div a b = int64_wrap (a sdiv b)"

definition go_sub :: "int \<Rightarrow> int \<Rightarrow> int" where
  "go_sub a b = int64_wrap (a - b)"

definition go_mul :: "int \<Rightarrow> int \<Rightarrow> int" where
  "go_mul a b = int64_wrap (a * b)"

section \<open>Forwarders (internal/forwarder/manager.go)\<close>

type_synonym stream_ref = nat
type_synonym reader_ref = nat
type_synonym conn_ref = nat

text \<open>The errors the forwarders build with \<^verbatim>\<open>fmt.Errorf\<close>, by message.\<close>

datatype fwd_error =
    ErrAlreadyStarted   \<comment> \<open>"forwarder already started"\<close>
  | ErrInvalidURL       \<comment> \<open>"invalid SRT URL", "invalid WebRTC URL ..."\<close>
  | ErrInvalidConfig    \<comment> \<open>"invalid SRT config"\<close>
  | ErrConnect          \<comment> \<open>"failed to connect"\<close>
  | ErrSetup            \<comment> \<open>"failed to setup MPEG-TS writer", "failed to setup WebRTC tracks"\<close>
  | ErrInitialize       \<comment> \<open>"failed to initialize WHIP client"\<close>
  | ErrTransport        \<comment> \<open>an error of the reader or of the peer connection\<close>

subsection \<open>The SRT forwarder\<close>

text \<open>
  Program counter of the goroutine \<^verbatim>\<open>run\<close>, at the points between its atomic
  actions (a critical section of the mutex, or one call on the stream).
\<close>

datatype srt_pc =
    S_None                                      \<comment> \<open>no goroutine: never spawned, or returned\<close>
  | S_LoopHead                                  \<comment> \<open>at the \<^verbatim>\<open>select\<close> of \<^verbatim>\<open>run\<close>\<close>
  | S_Dialed                                    \<comment> \<open>\<^verbatim>\<open>sconn\<close> stored, before the reader exists\<close>
  | S_Attached stream_ref reader_ref            \<comment> \<open>reader added, waiting\<close>
  | S_Closing "fwd_error option"                \<comment> \<open>reader removed, the deferred close pending\<close>
  | S_Returned "fwd_error option"               \<comment> \<open>\<^verbatim>\<open>runInner\<close> returned\<close>
  | S_Sleeping                                  \<comment> \<open>\<^verbatim>\<open>time.Sleep(ReconnectDelay)\<close>\<close>
  | S_Panicked                                  \<comment> \<open>nil dereference of \<^verbatim>\<open>f.stream\<close>\<close>

record srtForwarder =
  s_url :: string
  s_Reconnect :: bool                 \<comment> \<open>\<^verbatim>\<open>config.Reconnect\<close>\<close>
  s_stream :: "stream_ref option"
  s_reader :: "reader_ref option"
  sconn :: "conn_ref option"
  s_ctxDone :: bool                   \<comment> \<open>\<^verbatim>\<open>ctx\<close> cancelled\<close>
  s_wg :: nat                         \<comment> \<open>the wait group's counter\<close>
  udpMaxPayloadSize :: int
  s_lastError :: "fwd_error option"
  s_connected :: bool
  s_reconnectCount :: "64 word"
  s_pc :: srt_pc                      \<comment> \<open>the goroutine \<^verbatim>\<open>run\<close>\<close>
  s_attached :: "(stream_ref \<times> reader_ref) set"   \<comment> \<open>readers added to the streams\<close>
  s_fresh :: reader_ref               \<comment> \<open>the next \<^verbatim>\<open>&stream.Reader{}\<close>\<close>

definition newSRTForwarder :: "string \<Rightarrow> bool \<Rightarrow> int \<Rightarrow> srtForwarder" where
  "newSRTForwarder url reconnect udp =
     \<lparr> s_url = url, s_Reconnect = reconnect, s_stream = None, s_reader = None,
       sconn = None, s_ctxDone = False, s_wg = 0, udpMaxPayloadSize = udp,
       s_lastError = None, s_connected = False, s_reconnectCount = 0,
       s_pc = S_None, s_attached = {}, s_fresh = 0 \<rparr>"

text \<open>\<^verbatim>\<open>return ((f.udpMaxPayloadSize - 16) / 188) * 188\<close>\<close>

definition srtMaxPayloadSize :: "srtForwarder \<Rightarrow> int" where
  "srtMaxPayloadSize f = go_mul (go_div (go_sub (udpMaxPayloadSize f) 16) 188) 188"

text \<open>
  What the environment decides at a step of a forwarder's goroutine: the outcome of
  the URL and configuration checks, of the dial, of the track set-up, of the WHIP
  initialisation, and what the blocking \<^verbatim>\<open>select\<close> receives. \<open>Tick\<close> lets the
  goroutine take a step that needs no outcome.
\<close>

datatype run_event =
    Tick
  | UrlInvalid
  | ConfigInvalid
  | DialFail
  | DialOk conn_ref
  | SetupFail
  | SetupOk
  | InitFail
  | InitOk conn_ref
  | WaitErr "fwd_error option"    \<comment> \<open>the error channel delivers (possibly nil)\<close>
  | TimerFired                    \<comment> \<open>\<^verbatim>\<open>time.After(ReconnectDelay)\<close>\<close>

text \<open>
  \<^verbatim>\<open>Start\<close>: under the mutex, refuse when \<^verbatim>\<open>f.stream != nil\<close>; else store the
  stream, \<^verbatim>\<open>wg.Add(1)\<close> and spawn \<^verbatim>\<open>run\<close>. The result is the returned error
  (\<open>None\<close> is nil) and the forwarder. The model follows one goroutine: a second one
  could only be spawned while \<^verbatim>\<open>f.stream\<close> is nil.
\<close>

definition srt_Start :: "stream_ref option \<Rightarrow> srtForwarder \<Rightarrow> fwd_error option \<times> srtForwarder" where
  "srt_Start strm f =
     (if s_stream f \<noteq> None then (Some ErrAlreadyStarted, f)
      else (None, f\<lparr>s_stream := strm, s_wg := s_wg f + 1, s_pc := S_LoopHead\<rparr>))"

text \<open>
  \<^verbatim>\<open>Stop\<close> is \<^verbatim>\<open>ctxCancel()\<close>, then \<^verbatim>\<open>wg.Wait()\<close>, then the critical section
  that closes the connection and clears the fields. It is two events: the second
  is enabled once the wait group is at zero.
\<close>

definition srt_Stop_cancel :: "srtForwarder \<Rightarrow> srtForwarder" where
  "srt_Stop_cancel f = f\<lparr>s_ctxDone := True\<rparr>"

definition srt_Stop_finish :: "srtForwarder \<Rightarrow> srtForwarder" where
  "srt_Stop_finish f =
     (if s_wg f \<noteq> 0 then f
      else f\<lparr>s_stream := None, s_reader := None, sconn := None\<rparr>)"

text \<open>\<^verbatim>\<open>return f.stream != nil\<close>\<close>

definition srt_IsRunning :: "srtForwarder \<Rightarrow> bool" where
  "srt_IsRunning f = (s_stream f \<noteq> None)"

text \<open>The goroutine returns from \<^verbatim>\<open>run\<close>: the deferred \<^verbatim>\<open>wg.Done()\<close>.\<close>

definition srt_exit :: "srtForwarder \<Rightarrow> srtForwarder" where
  "srt_exit f = f\<lparr>s_pc := S_None, s_wg := s_wg f - 1\<rparr>"

text \<open>
  One step of \<^verbatim>\<open>run\<close> and \<^verbatim>\<open>runInner\<close>. An event that the current program point
  does not wait for leaves the forwarder as it is. \<^verbatim>\<open>runInner\<close> stores the
  connection after the dial, creates the reader, sets the MPEG-TS writer up
  (reading \<^verbatim>\<open>f.stream.Desc\<close>), adds the reader and waits; its deferred calls run
  last-in first-out: \<^verbatim>\<open>RemoveReader\<close>, then the close that clears \<^verbatim>\<open>sconn\<close>.
\<close>

definition srt_run :: "run_event \<Rightarrow> srtForwarder \<Rightarrow> srtForwarder" where
  "srt_run ev f =
     (case s_pc f of
        S_None \<Rightarrow> f
      | S_LoopHead \<Rightarrow>
          (if s_ctxDone f then srt_exit f
           else (case ev of
                   UrlInvalid \<Rightarrow> f\<lparr>s_pc := S_Returned (Some ErrInvalidURL)\<rparr>
                 | ConfigInvalid \<Rightarrow> f\<lparr>s_pc := S_Returned (Some ErrInvalidConfig)\<rparr>
                 | DialFail \<Rightarrow> f\<lparr>s_pc := S_Returned (Some ErrConnect)\<rparr>
                 | DialOk c \<Rightarrow> f\<lparr>sconn := Some c, s_connected := True, s_pc := S_Dialed\<rparr>
                 | _ \<Rightarrow> f))
      | S_Dialed \<Rightarrow>
          (let r = s_fresh f;
               f1 = f\<lparr>s_reader := Some r, s_fresh := r + 1\<rparr>
           in case ev of
                SetupFail \<Rightarrow>
                  (case s_stream f of
                     None \<Rightarrow> f1\<lparr>s_pc := S_Panicked\<rparr>
                   | Some s \<Rightarrow> f1\<lparr>s_pc := S_Closing (Some ErrSetup)\<rparr>)
              | SetupOk \<Rightarrow>
                  (case s_stream f of
                     None \<Rightarrow> f1\<lparr>s_pc := S_Panicked\<rparr>
                   | Some s \<Rightarrow> f1\<lparr>s_attached := insert (s, r) (s_attached f),
                                 s_pc := S_Attached s r\<rparr>)
              | _ \<Rightarrow> f)
      | S_Attached s r \<Rightarrow>
          (case ev of
             WaitErr e \<Rightarrow> f\<lparr>s_attached := s_attached f - {(s, r)}, s_pc := S_Closing e\<rparr>
           | Tick \<Rightarrow>
               (if s_ctxDone f
                then f\<lparr>s_attached := s_attached f - {(s, r)}, s_pc := S_Closing None\<rparr>
                else f)
           | _ \<Rightarrow> f)
      | S_Closing e \<Rightarrow> f\<lparr>sconn := None, s_connected := False, s_pc := S_Returned e\<rparr>
      | S_Returned None \<Rightarrow> f\<lparr>s_pc := S_LoopHead\<rparr>
      | S_Returned (Some e) \<Rightarrow>
          (let f1 = f\<lparr>s_lastError := Some e, s_connected := False\<rparr>
           in if s_Reconnect f
              then f1\<lparr>s_reconnectCount := s_reconnectCount f + 1, s_pc := S_Sleeping\<rparr>
              else srt_exit f1)
      | S_Sleeping \<Rightarrow> f\<lparr>s_pc := S_LoopHead\<rparr>
      | S_Panicked \<Rightarrow> f)"

text \<open>
  The events of a forwarder's life: the calls of its owner (the manager starts it
  with the path's stream, a non-nil pointer) and the steps of its goroutine.
\<close>

datatype fwd_event =
    EvStart stream_ref
  | EvStopCancel
  | EvStopFinish
  | EvRun run_event

fun srt_step :: "fwd_event \<Rightarrow> srtForwarder \<Rightarrow> srtForwarder" where
  "srt_step (EvStart s) f = snd (srt_Start (Some s) f)"
| "srt_step EvStopCancel f = srt_Stop_cancel f"
| "srt_step EvStopFinish f = srt_Stop_finish f"
| "srt_step (EvRun ev) f = srt_run ev f"

subsection \<open>The WHIP forwarder\<close>

datatype whip_pc =
    W_None                                        \<comment> \<open>no goroutine\<close>
  | W_RunInner                                    \<comment> \<open>about to call \<^verbatim>\<open>runInner\<close>\<close>
  | W_Setup                                       \<comment> \<open>tracks set up, before \<^verbatim>\<open>Initialize\<close>\<close>
  | W_Initialized conn_ref                        \<comment> \<open>WHIP client initialised, before \<^verbatim>\<open>AddReader\<close>\<close>
  | W_Attached stream_ref reader_ref conn_ref     \<comment> \<open>reader added, \<^verbatim>\<open>f.whipClient\<close> not yet stored\<close>
  | W_Serving stream_ref reader_ref conn_ref      \<comment> \<open>\<^verbatim>\<open>f.whipClient\<close> stored, waiting\<close>
  | W_Closed stream_ref reader_ref "fwd_error option"  \<comment> \<open>deferred close done, \<^verbatim>\<open>RemoveReader\<close> pending\<close>
  | W_Returned "fwd_error option"                 \<comment> \<open>\<^verbatim>\<open>runInner\<close> returned\<close>
  | W_CheckCtx                                    \<comment> \<open>the first \<^verbatim>\<open>select\<close> of \<^verbatim>\<open>run\<close>\<close>
  | W_Waiting                                     \<comment> \<open>the second \<^verbatim>\<open>select\<close>: cancel or timer\<close>
  | W_Panicked

record webrtcForwarder =
  w_url :: string
  w_Reconnect :: bool
  w_stream :: "stream_ref option"
  w_reader :: "reader_ref option"
  whipClient :: "conn_ref option"
  w_ctxDone :: bool
  w_wg :: nat
  w_lastError :: "fwd_error option"
  w_connected :: bool
  w_reconnectCount :: "64 word"
  w_pc :: whip_pc
  w_attached :: "(stream_ref \<times> reader_ref) set"
  w_fresh :: reader_ref

definition newWebRTCForwarder :: "string \<Rightarrow> bool \<Rightarrow> webrtcForwarder" where
  "newWebRTCForwarder url reconnect =
     \<lparr> w_url = url, w_Reconnect = reconnect, w_stream = None, w_reader = None,
       whipClient = None, w_ctxDone = False, w_wg = 0,
       w_lastError = None, w_connected = False, w_reconnectCount = 0,
       w_pc = W_None, w_attached = {}, w_fresh = 0 \<rparr>"

definition whip_Start :: "stream_ref option \<Rightarrow> webrtcForwarder \<Rightarrow> fwd_error option \<times> webrtcForwarder" where
  "whip_Start strm f =
     (if w_stream f \<noteq> None then (Some ErrAlreadyStarted, f)
      else (None, f\<lparr>w_stream := strm, w_wg := w_wg f + 1, w_pc := W_RunInner\<rparr>))"

definition whip_Stop_cancel :: "webrtcForwarder \<Rightarrow> webrtcForwarder" where
  "whip_Stop_cancel f = f\<lparr>w_ctxDone := True\<rparr>"

definition whip_Stop_finish :: "webrtcForwarder \<Rightarrow> webrtcForwarder" where
  "whip_Stop_finish f =
     (if w_wg f \<noteq> 0 then f
      else f\<lparr>w_stream := None, w_reader := None, whipClient := None\<rparr>)"

text \<open>\<^verbatim>\<open>return f.stream != nil && f.whipClient != nil\<close>\<close>

definition whip_IsRunning :: "webrtcForwarder \<Rightarrow> bool" where
  "whip_IsRunning f = (w_stream f \<noteq> None \<and> whipClient f \<noteq> None)"

definition whip_exit :: "webrtcForwarder \<Rightarrow> webrtcForwarder" where
  "whip_exit f = f\<lparr>w_pc := W_None, w_wg := w_wg f - 1\<rparr>"

text \<open>
  One step of the WHIP forwarder's \<^verbatim>\<open>run\<close> and \<^verbatim>\<open>runInner\<close>. \<^verbatim>\<open>runInner\<close>
  checks the URL, creates the reader, mirrors the stream's tracks (reading
  \<^verbatim>\<open>f.stream.Desc\<close>), initialises the WHIP client, adds the reader, and only then
  stores \<^verbatim>\<open>f.whipClient\<close>. Its deferred calls run last-in first-out: the close
  that clears \<^verbatim>\<open>f.whipClient\<close> first, \<^verbatim>\<open>RemoveReader\<close> after it.
\<close>

definition whip_run :: "run_event \<Rightarrow> webrtcForwarder \<Rightarrow> webrtcForwarder" where
  "whip_run ev f =
     (case w_pc f of
        W_None \<Rightarrow> f
      | W_RunInner \<Rightarrow>
          (let r = w_fresh f;
               f1 = f\<lparr>w_reader := Some r, w_fresh := r + 1\<rparr>
           in case ev of
                UrlInvalid \<Rightarrow> f\<lparr>w_pc := W_Returned (Some ErrInvalidURL)\<rparr>
              | SetupFail \<Rightarrow>
                  (case w_stream f of
                     None \<Rightarrow> f1\<lparr>w_pc := W_Panicked\<rparr>
                   | Some s \<Rightarrow> f1\<lparr>w_pc := W_Returned (Some ErrSetup)\<rparr>)
              | SetupOk \<Rightarrow>
                  (case w_stream f of
                     None \<Rightarrow> f1\<lparr>w_pc := W_Panicked\<rparr>
                   | Some s \<Rightarrow> f1\<lparr>w_pc := W_Setup\<rparr>)
              | _ \<Rightarrow> f)
      | W_Setup \<Rightarrow>
          (case ev of
             InitFail \<Rightarrow> f\<lparr>w_pc := W_Returned (Some ErrInitialize)\<rparr>
           | InitOk c \<Rightarrow> f\<lparr>w_pc := W_Initialized c\<rparr>
           | _ \<Rightarrow> f)
      | W_Initialized c \<Rightarrow>
          (case (w_stream f, w_reader f) of
             (Some s, Some r) \<Rightarrow>
               f\<lparr>w_attached := insert (s, r) (w_attached f), w_pc := W_Attached s r c\<rparr>
           | _ \<Rightarrow> f\<lparr>w_pc := W_Panicked\<rparr>)
      | W_Attached s r c \<Rightarrow>
          f\<lparr>whipClient := Some c, w_connected := True, w_pc := W_Serving s r c\<rparr>
      | W_Serving s r c \<Rightarrow>
          (case ev of
             WaitErr e \<Rightarrow>
               f\<lparr>whipClient := None, w_connected := False, w_pc := W_Closed s r e\<rparr>
           | Tick \<Rightarrow>
               (if w_ctxDone f
                then f\<lparr>whipClient := None, w_connected := False, w_pc := W_Closed s r None\<rparr>
                else f)
           | _ \<Rightarrow> f)
      | W_Closed s r e \<Rightarrow>
          f\<lparr>w_attached := w_attached f - {(s, r)}, w_pc := W_Returned e\<rparr>
      | W_Returned None \<Rightarrow> f\<lparr>w_pc := W_CheckCtx\<rparr>
      | W_Returned (Some e) \<Rightarrow>
          f\<lparr>w_lastError := Some e, w_connected := False, w_pc := W_CheckCtx\<rparr>
      | W_CheckCtx \<Rightarrow>
          (if w_ctxDone f then whip_exit f
           else if \<not> w_Reconnect f then whip_exit f
           else f\<lparr>w_pc := W_Waiting\<rparr>)
      | W_Waiting \<Rightarrow>
          (case ev of
             Tick \<Rightarrow> (if w_ctxDone f then whip_exit f else f)
           | TimerFired \<Rightarrow>
               f\<lparr>w_reconnectCount := w_reconnectCount f + 1, w_pc := W_RunInner\<rparr>
           | _ \<Rightarrow> f)
      | W_Panicked \<Rightarrow> f)"

fun whip_step :: "fwd_event \<Rightarrow> webrtcForwarder \<Rightarrow> webrtcForwarder" where
  "whip_step (EvStart s) f = snd (whip_Start (Some s) f)"
| "whip_step EvStopCancel f = whip_Stop_cancel f"
| "whip_step EvStopFinish f = whip_Stop_finish f"
| "whip_step (EvRun ev) f = whip_run ev f"

text \<open>
  The lifecycle invariant of the WHIP forwarder, by program point: the goroutine
  exists exactly when the wait group is at one, it exists only while the stream is
  stored, and \<^verbatim>\<open>f.whipClient\<close> is stored only while the goroutine waits with its
  reader added to the stream.
\<close>

definition whip_inv :: "webrtcForwarder \<Rightarrow> bool" where
  "whip_inv f =
     ((w_pc f = W_None) = (w_wg f = 0) \<and> w_wg f \<le> 1
      \<and> (w_pc f = W_None \<or> w_stream f \<noteq> None)
      \<and> (case w_pc f of
            W_Serving s r c \<Rightarrow>
              w_stream f = Some s \<and> w_reader f = Some r \<and> whipClient f = Some c
              \<and> (s, r) \<in> w_attached f
          | W_Attached s r c \<Rightarrow>
              w_stream f = Some s \<and> w_reader f = Some r \<and> whipClient f = None
              \<and> (s, r) \<in> w_attached f
          | _ \<Rightarrow> whipClient f = None))"

section \<open>Transcoder static source (internal/staticsources/transcoder/source.go)\<close>

text \<open>\<^verbatim>\<open>strings.HasPrefix\<close> and \<^verbatim>\<open>strings.LastIndexByte\<close> of Go's library.\<close>

definition HasPrefix :: "string \<Rightarrow> string \<Rightarrow> bool" where
  "HasPrefix s p = (length p \<le> length s \<and> take (length p) s = p)"

fun LastIndexByte :: "string \<Rightarrow> char \<Rightarrow> int" where
  "LastIndexByte [] c = -1"
| "LastIndexByte (x # xs) c =
     (let r = LastIndexByte xs c
      in if r \<noteq> -1 then r + 1 else if x = c then 0 else -1)"

definition ParseTranscoderSource :: "string \<Rightarrow> string \<times> string \<times> bool" where
  "ParseTranscoderSource source =
     (if \<not> HasPrefix source ''transcoder:'' then ([], [], False)
      else
        let remaining = drop (length ''transcoder:'') source;
            colonIndex = LastIndexByte remaining (CHR '':'')
        in if colonIndex = -1 then ([], [], False)
           else (take (nat colonIndex) remaining,
                 drop (nat (colonIndex + 1)) remaining, True))"

section \<open>Session descriptions (gortsplib's description and format packages)\<close>

text \<open>
  The host's types, as far as the code reads them: a session is a list of medias,
  a media has a type and formats, and H.264 and Opus are two of the formats.
\<close>

datatype MediaType = MediaTypeVideo | MediaTypeAudio | MediaTypeApplication

datatype Format =
    H264 "8 word" "8 word list" "8 word list" int
      \<comment> \<open>\<^verbatim>\<open>PayloadTyp\<close>, \<^verbatim>\<open>SPS\<close>, \<^verbatim>\<open>PPS\<close>, \<^verbatim>\<open>PacketizationMode\<close>\<close>
  | Opus "8 word" int
      \<comment> \<open>\<^verbatim>\<open>PayloadTyp\<close>, \<^verbatim>\<open>ChannelCount\<close>\<close>
  | OtherFormat string

record Media =
  media_Type :: MediaType
  media_Formats :: "Format list"

record Session =
  Medias :: "Media list"

text \<open>The fields of \<^verbatim>\<open>stream.Stream\<close> that the transcoder sets.\<close>

record Stream =
  WriteQueueSize :: int
  RTPMaxPayloadSize :: int
  Desc :: "Session option"
  GenerateRTPPackets :: bool
  FillNTP :: bool

section \<open>Transcoder (internal/conf, internal/transcoder/manager.go)\<close>

record SRTTranscodingVideoConfig =
  v_Resolution :: string
  v_Bitrate :: nat
  v_Framerate :: nat
  v_Preset :: string

record SRTTranscodingAudioConfig =
  a_Bitrate :: nat
  a_Samplerate :: nat
  a_Channels :: nat

record SRTTranscodingOutput =
  out_Path :: string
  out_Type :: string
  out_Video :: "SRTTranscodingVideoConfig option"
  out_Audio :: "SRTTranscodingAudioConfig option"

record SRTTranscodingConfig =
  tc_Enable :: bool
  tc_Outputs :: "SRTTranscodingOutput list"

datatype io_error = EOF | IOFailure

datatype tr_error =
    ErrTranscoderActive        \<comment> \<open>"transcoder already active"\<close>
  | ErrCreateOutput string     \<comment> \<open>"failed to create output <path>"\<close>
  | ErrStartOutput string      \<comment> \<open>"failed to start output <path>"\<close>
  | ErrInitializeStream        \<comment> \<open>"failed to initialize stream"\<close>
  | ErrOutputActive            \<comment> \<open>"output already active"\<close>
  | ErrSpawn                   \<comment> \<open>a pipe or the FFmpeg process could not be created\<close>

subsection \<open>A transcoding output\<close>

definition cannedSPS :: "8 word list" where
  "cannedSPS = [0x67, 0x42, 0xc0, 0x28, 0xd9, 0x00, 0x78, 0x02, 0x27, 0xe5, 0x84, 0x00,
                0x00, 0x03, 0x00, 0x04, 0x00, 0x00, 0x03, 0x00, 0xf0, 0x3c, 0x60, 0xc9, 0x20]"

definition cannedPPS :: "8 word list" where
  "cannedPPS = [0x08, 0x06, 0x07, 0x08]"

definition videoTrack :: Media where
  "videoTrack = \<lparr> media_Type = MediaTypeVideo,
                   media_Formats = [H264 96 cannedSPS cannedPPS 1] \<rparr>"

definition audioTrack :: Media where
  "audioTrack = \<lparr> media_Type = MediaTypeAudio, media_Formats = [Opus 97 2] \<rparr>"

definition createStreamDescription :: "SRTTranscodingOutput \<Rightarrow> Session" where
  "createStreamDescription config =
     (let desc = \<lparr> Medias = [] \<rparr>;
          desc = (if out_Type config = ''video''
                  then desc\<lparr>Medias := Medias desc @ [videoTrack]\<rparr> else desc)
      in desc\<lparr>Medias := Medias desc @ [audioTrack]\<rparr>)"

record Output =
  o_config :: SRTTranscodingOutput
  o_stream :: Stream
  o_reader :: "reader_ref option"
  o_active :: bool
  o_ctxDone :: bool

text \<open>
  \<^verbatim>\<open>NewOutput\<close>; \<open>initialized\<close> says whether the host's \<^verbatim>\<open>strm.Initialize()\<close>
  succeeds.
\<close>

definition NewOutput :: "SRTTranscodingOutput \<Rightarrow> bool \<Rightarrow> tr_error + Output" where
  "NewOutput config initialized =
     (let strm = \<lparr> WriteQueueSize = 64, RTPMaxPayloadSize = 1460,
                    Desc = Some (createStreamDescription config),
                    GenerateRTPPackets = True, FillNTP = True \<rparr>
      in if \<not> initialized then Inl ErrInitializeStream
         else Inr \<lparr> o_config = config, o_stream = strm, o_reader = None,
                    o_active = False, o_ctxDone = False \<rparr>)"


text \<open>
  \<^verbatim>\<open>inputProcessor\<close>, the goroutine that feeds the encoder: it stores a new reader
  \<open>r\<close> and adds it to the input stream, which dereferences the stream. The result
  \<open>None\<close> is the panic of a nil input stream.
\<close>

definition inputProcessor :: "stream_ref option \<Rightarrow> reader_ref \<Rightarrow> Output \<Rightarrow> Output option" where
  "inputProcessor inputStream r out =
     (let out1 = out\<lparr>o_reader := Some r\<rparr>
      in case inputStream of
           None \<Rightarrow> None
         | Some s \<Rightarrow> Some out1)"

definition Output_Stop :: "Output \<Rightarrow> Output" where
  "Output_Stop out =
     (if \<not> o_active out then out else out\<lparr>o_active := False, o_ctxDone := True\<rparr>)"

text \<open>
  \<^verbatim>\<open>outputProcessor\<close>, up to the point where it only reads frames. \<open>initErr\<close> is
  what \<^verbatim>\<open>enhancedReader.Initialize()\<close> returns and \<open>(medias, err)\<close> what
  \<^verbatim>\<open>mpegts.ToStream\<close> returns (both are the host's; \<open>None\<close> is a nil error).
\<close>

definition outputProcessor ::
  "io_error option \<Rightarrow> Media list \<times> io_error option \<Rightarrow> Output \<Rightarrow> Output" where
  "outputProcessor initErr toStream out =
     (case initErr of
        Some e \<Rightarrow> out
      | None \<Rightarrow>
          (case toStream of (medias, err) \<Rightarrow>
             if err \<noteq> None \<and> err \<noteq> Some EOF then out
             else if length medias > 0
             then out\<lparr>o_stream := (o_stream out)\<lparr>Desc := Some \<lparr> Medias = medias \<rparr>\<rparr>\<rparr>
             else out))"

subsection \<open>The transcoder manager\<close>

record Manager =
  m_config :: "SRTTranscodingConfig option"
  m_inputStream :: "stream_ref option"
  m_outputs :: "string \<rightharpoonup> Output"
  m_active :: bool
  m_ctxDone :: bool





definition Manager_Stop :: "Manager \<Rightarrow> Manager" where
  "Manager_Stop m =
     (if \<not> m_active m then m
      else m\<lparr>m_active := False, m_ctxDone := True, m_outputs := Map.empty\<rparr>)"

text \<open>The output that \<^verbatim>\<open>Manager.Start\<close> registers for a configuration.\<close>

definition started_output :: "SRTTranscodingOutput \<Rightarrow> Output" where
  "started_output config =
     \<lparr> o_config = config,
       o_stream = \<lparr> WriteQueueSize = 64, RTPMaxPayloadSize = 1460,
                    Desc = Some (createStreamDescription config),
                    GenerateRTPPackets = True, FillNTP = True \<rparr>,
       o_reader = None, o_active = True, o_ctxDone = False \<rparr>"

text \<open>Two configured outputs, as in the specification's scenario S6.\<close>

definition out480 :: SRTTranscodingOutput where
  "out480 = \<lparr> out_Path = ''live/in-480p'', out_Type = ''video'',
     out_Video = Some \<lparr> v_Resolution = ''854x480'', v_Bitrate = 800000,
                        v_Framerate = 30, v_Preset = ''veryfast'' \<rparr>,
     out_Audio = None \<rparr>"

definition outAudio :: SRTTranscodingOutput where
  "outAudio = \<lparr> out_Path = ''live/in-audio'', out_Type = ''audio'',
     out_Video = None,
     out_Audio = Some \<lparr> a_Bitrate = 64000, a_Samplerate = 48000, a_Channels = 2 \<rparr> \<rparr>"

section \<open>Simulcast aggregation source (internal/conf/simulcast.go, package simulcast)\<close>

unbundle bit_operations_syntax

record SimulcastInput =
  in_Path :: string
  in_Layer :: string
  in_Resolution :: string
  in_Bitrate :: nat
  in_Type :: string

record layerInfo =
  li_Layer :: string
  li_SSRC :: "32 word"
  li_RID :: string
  li_Resolution :: string
  li_Bitrate :: nat

text \<open>An RTP packet (pion's \<^verbatim>\<open>rtp.Packet\<close>): the header's fields and the payload.\<close>

record Packet =
  Marker :: bool
  PayloadType :: "8 word"
  SequenceNumber :: "16 word"
  Timestamp :: "32 word"
  SSRC :: "32 word"
  Payload :: "8 word list"

text \<open>A unit of the stream bus: its RTP packets, its NTP time, and whether its payload is nil.\<close>

record Unit =
  RTPPackets :: "Packet list"
  NTP :: int
  NilPayload :: bool

text \<open>A call of \<^verbatim>\<open>outputStream.WriteRTPPacket(media, format, pkt, ntp, pts)\<close>.\<close>

record Write =
  wr_media :: Media
  wr_format :: Format
  wr_pkt :: Packet
  wr_ntp :: int
  wr_pts :: int

datatype sim_error =
    ErrAddReader string        \<comment> \<open>"failed to add reader to path"\<close>
  | ErrNilPath string          \<comment> \<open>"path returned nil"\<close>
  | ErrWaitCancelled           \<comment> \<open>"context cancelled while waiting for stream"\<close>
  | ErrNotReady string         \<comment> \<open>"path did not become ready within 10s"\<close>
  | ErrGenerateSSRC string     \<comment> \<open>"failed to generate SSRC for path"\<close>
  | ErrContextCancelled        \<comment> \<open>"context cancelled"\<close>
  | PanicNilDereference        \<comment> \<open>a nil pointer is dereferenced\<close>

record Source =
  src_Inputs :: "SimulcastInput list"            \<comment> \<open>\<^verbatim>\<open>config.Inputs\<close>\<close>
  outputStream :: "Stream option"
  inputStreams :: "string \<rightharpoonup> Stream"
  readers :: "string \<rightharpoonup> reader_ref"
  layerMapping :: "string \<rightharpoonup> layerInfo"
  src_ctxDone :: bool
  written :: "Write list"                        \<comment> \<open>the packets written to the output stream\<close>
  src_fresh :: reader_ref

definition New :: "SimulcastInput list \<Rightarrow> Source" where
  "New inputs =
     \<lparr> src_Inputs = inputs, outputStream = None, inputStreams = Map.empty,
       readers = Map.empty, layerMapping = Map.empty, src_ctxDone = False,
       written = [], src_fresh = 0 \<rparr>"

text \<open>
  \<^verbatim>\<open>randUint32\<close>: four bytes of \<^verbatim>\<open>crypto/rand\<close> (\<open>None\<close> when \<^verbatim>\<open>rand.Read\<close>
  fails), assembled big-endian.
\<close>

definition randUint32 :: "(8 word \<times> 8 word \<times> 8 word \<times> 8 word) option \<Rightarrow> 32 word option" where
  "randUint32 rnd =
     (case rnd of
        None \<Rightarrow> None
      | Some (b0, b1, b2, b3) \<Rightarrow>
          Some (push_bit 24 (ucast b0) OR push_bit 16 (ucast b1)
                OR push_bit 8 (ucast b2) OR ucast b3))"

text \<open>
  What the host and the random source decide for the input at a position:
  \<^verbatim>\<open>PathManager.AddReader\<close> fails, or returns nil, or returns a stream; the wait for
  the stream's description is cancelled; and the bytes \<^verbatim>\<open>rand.Read\<close> delivers. A
  stream whose description stays nil or empty ends the wait with the time-out.
\<close>

datatype attach_outcome =
    AddReaderFails
  | ReturnsNil
  | WaitCancelled
  | Attaches Stream "(8 word \<times> 8 word \<times> 8 word \<times> 8 word) option"

definition stream_ready :: "Stream \<Rightarrow> bool" where
  "stream_ready strm = (case Desc strm of None \<Rightarrow> False | Some d \<Rightarrow> length (Medias d) \<noteq> 0)"

text \<open>The loop of \<^verbatim>\<open>connectInputs\<close> over \<^verbatim>\<open>config.Inputs\<close>, from position \<open>i\<close>.\<close>

fun connect_loop ::
  "(nat \<Rightarrow> attach_outcome) \<Rightarrow> nat \<Rightarrow> SimulcastInput list \<Rightarrow> Source
     \<Rightarrow> sim_error option \<times> Source" where
  "connect_loop env i [] s = (None, s)"
| "connect_loop env i (input # rest) s =
     (case env i of
        AddReaderFails \<Rightarrow> (Some (ErrAddReader (in_Path input)), s)
      | ReturnsNil \<Rightarrow> (Some (ErrNilPath (in_Path input)), s)
      | WaitCancelled \<Rightarrow> (Some ErrWaitCancelled, s)
      | Attaches strm rnd \<Rightarrow>
          if \<not> stream_ready strm then (Some (ErrNotReady (in_Path input)), s)
          else
            let reader = src_fresh s;
                s1 = s\<lparr>src_fresh := reader + 1,
                       inputStreams := (inputStreams s)(in_Path input \<mapsto> strm),
                       readers := (readers s)(in_Path input \<mapsto> reader)\<rparr>;
                info = \<lparr> li_Layer = in_Layer input, li_SSRC = 0, li_RID = in_Layer input,
                         li_Resolution = in_Resolution input,
                         li_Bitrate = in_Bitrate input \<rparr>
            in case randUint32 rnd of
                 None \<Rightarrow> (Some (ErrGenerateSSRC (in_Path input)), s1)
               | Some ssrc \<Rightarrow>
                   connect_loop env (i + 1) rest
                     (s1\<lparr>layerMapping :=
                           (layerMapping s1)(in_Path input \<mapsto> info\<lparr>li_SSRC := ssrc\<rparr>)\<rparr>))"

definition connectInputs :: "(nat \<Rightarrow> attach_outcome) \<Rightarrow> Source \<Rightarrow> sim_error option \<times> Source" where
  "connectInputs env s = connect_loop env 0 (src_Inputs s) s"

text \<open>
  The search both forwarders run on a description: the first media of the type,
  and in it the first format of the codec.
\<close>

fun is_H264 :: "Format \<Rightarrow> bool" where
  "is_H264 (H264 pt sps pps pm) = True"
| "is_H264 f = False"

fun is_Opus :: "Format \<Rightarrow> bool" where
  "is_Opus (Opus pt ch) = True"
| "is_Opus f = False"

definition find_media_format ::
  "MediaType \<Rightarrow> (Format \<Rightarrow> bool) \<Rightarrow> Media list \<Rightarrow> Media option \<times> Format option" where
  "find_media_format ty codec medias =
     (case List.find (\<lambda>m. media_Type m = ty) medias of
        None \<Rightarrow> (None, None)
      | Some m \<Rightarrow> (Some m, List.find codec (media_Formats m)))"

text \<open>
  The callbacks registered with \<^verbatim>\<open>reader.OnData\<close>. The video one closes over the
  layer's \<^verbatim>\<open>layerInfo\<close>; \<^verbatim>\<open>forwardAudio\<close> is not given it.
\<close>

datatype callback = VideoCallback layerInfo | AudioCallback

datatype forward_result =
    NotForwarding                      \<comment> \<open>an error is logged and the goroutine returns\<close>
  | NilDereference                      \<comment> \<open>\<^verbatim>\<open>layerInfo.Layer\<close> or \<^verbatim>\<open>strm.Desc.Medias\<close> on nil\<close>
  | Registered Media Format callback    \<comment> \<open>\<^verbatim>\<open>reader.OnData(media, format, callback)\<close>\<close>

definition forwardVideo :: "Stream \<Rightarrow> layerInfo \<Rightarrow> forward_result" where
  "forwardVideo strm info =
     (case Desc strm of
        None \<Rightarrow> NilDereference
      | Some d \<Rightarrow>
          (case find_media_format MediaTypeVideo is_H264 (Medias d) of
             (Some videoMedia, Some h264Format) \<Rightarrow>
               Registered videoMedia h264Format (VideoCallback info)
           | _ \<Rightarrow> NotForwarding))"

definition forwardAudio :: "Stream \<Rightarrow> forward_result" where
  "forwardAudio strm =
     (case Desc strm of
        None \<Rightarrow> NilDereference
      | Some d \<Rightarrow>
          (case find_media_format MediaTypeAudio is_Opus (Medias d) of
             (Some audioMedia, Some opusFormat) \<Rightarrow>
               Registered audioMedia opusFormat AudioCallback
           | _ \<Rightarrow> NotForwarding))"

definition forwardInput :: "SimulcastInput \<Rightarrow> Source \<Rightarrow> forward_result" where
  "forwardInput input s =
     (case (inputStreams s (in_Path input), readers s (in_Path input)) of
        (Some strm, Some reader) \<Rightarrow>
          (case layerMapping s (in_Path input) of
             None \<Rightarrow> NilDereference
           | Some info \<Rightarrow>
               if in_Type input = ''video'' then forwardVideo strm info
               else forwardAudio strm)
      | _ \<Rightarrow> NotForwarding)"

text \<open>
  The body of the callbacks' loop for one packet: clone it (header by value, payload
  into a fresh buffer), for video overwrite the SSRC, look the media and format up
  in the output stream's description, and write.
\<close>

definition clone :: "Packet \<Rightarrow> Packet" where
  "clone originalPkt =
     \<lparr> Marker = Marker originalPkt, PayloadType = PayloadType originalPkt,
       SequenceNumber = SequenceNumber originalPkt, Timestamp = Timestamp originalPkt,
       SSRC = SSRC originalPkt, Payload = Payload originalPkt \<rparr>"

definition write_packet ::
  "MediaType \<Rightarrow> (Format \<Rightarrow> bool) \<Rightarrow> Unit \<Rightarrow> Packet \<Rightarrow> Source \<Rightarrow> sim_error option \<times> Source" where
  "write_packet ty codec u pkt s =
     (case outputStream s of
        None \<Rightarrow> (Some PanicNilDereference, s)
      | Some out \<Rightarrow>
          (case Desc out of
             None \<Rightarrow> (Some PanicNilDereference, s)
           | Some d \<Rightarrow>
               (case find_media_format ty codec (Medias d) of
                  (Some outputMedia, Some outputFormat) \<Rightarrow>
                    (None, s\<lparr>written := written s @
                       [\<lparr> wr_media = outputMedia, wr_format = outputFormat, wr_pkt = pkt,
                          wr_ntp = NTP u, wr_pts = uint (Timestamp pkt) \<rparr>]\<rparr>)
                | _ \<Rightarrow> (None, s))))"

fun video_loop :: "layerInfo \<Rightarrow> Unit \<Rightarrow> Packet list \<Rightarrow> Source \<Rightarrow> sim_error option \<times> Source" where
  "video_loop info u [] s = (None, s)"
| "video_loop info u (originalPkt # rest) s =
     (let pkt = clone originalPkt;
          pkt = pkt\<lparr>SSRC := li_SSRC info\<rparr>
      in case write_packet MediaTypeVideo is_H264 u pkt s of
           (Some e, s') \<Rightarrow> (Some e, s')
         | (None, s') \<Rightarrow> video_loop info u rest s')"

fun audio_loop :: "Unit \<Rightarrow> Packet list \<Rightarrow> Source \<Rightarrow> sim_error option \<times> Source" where
  "audio_loop u [] s = (None, s)"
| "audio_loop u (originalPkt # rest) s =
     (let pkt = clone originalPkt
      in case write_packet MediaTypeAudio is_Opus u pkt s of
           (Some e, s') \<Rightarrow> (Some e, s')
         | (None, s') \<Rightarrow> audio_loop u rest s')"

text \<open>The stream delivers a unit to a registered callback.\<close>

definition onData :: "callback \<Rightarrow> Unit \<Rightarrow> Source \<Rightarrow> sim_error option \<times> Source" where
  "onData cb u s =
     (if src_ctxDone s then (Some ErrContextCancelled, s)
      else if NilPayload u then (None, s)
      else case cb of
             VideoCallback info \<Rightarrow> video_loop info u (RTPPackets u) s
           | AudioCallback \<Rightarrow> audio_loop u (RTPPackets u) s)"

text \<open>The packets a delivery adds to the output stream.\<close>

definition new_packets :: "Source \<Rightarrow> Source \<Rightarrow> Packet list" where
  "new_packets s s' = map wr_pkt (drop (length (written s)) (written s'))"

text \<open>
  Whether a packet can be written: the output stream and its description exist and
  the description holds a media of the type with a format of the codec.
\<close>

definition can_write :: "MediaType \<Rightarrow> (Format \<Rightarrow> bool) \<Rightarrow> Source \<Rightarrow> bool" where
  "can_write ty codec s =
     (\<exists>out d m f. outputStream s = Some out \<and> Desc out = Some d
        \<and> find_media_format ty codec (Medias d) = (Some m, Some f))"

text \<open>
  An audio-only and a video-only upstream, an input layer for each, attached with the
  random bytes \<open>11 22 33 44\<close>, and an upstream packet.
\<close>

definition opusStream :: Stream where
  "opusStream = \<lparr> WriteQueueSize = 512, RTPMaxPayloadSize = 1460,
                   Desc = Some \<lparr> Medias = [audioTrack] \<rparr>,
                   GenerateRTPPackets = True, FillNTP = True \<rparr>"

definition h264Stream :: Stream where
  "h264Stream = \<lparr> WriteQueueSize = 512, RTPMaxPayloadSize = 1460,
                   Desc = Some \<lparr> Medias = [videoTrack] \<rparr>,
                   GenerateRTPPackets = True, FillNTP = True \<rparr>"

definition audioInput :: SimulcastInput where
  "audioInput = \<lparr> in_Path = ''live/a'', in_Layer = ''high'', in_Resolution = [],
                   in_Bitrate = 64000, in_Type = ''audio'' \<rparr>"

definition videoInput :: SimulcastInput where
  "videoInput = \<lparr> in_Path = ''live/h'', in_Layer = ''high'', in_Resolution = ''1920x1080'',
                   in_Bitrate = 2000000, in_Type = ''video'' \<rparr>"

definition upstreamPkt :: Packet where
  "upstreamPkt = \<lparr> Marker = False, PayloadType = 97, SequenceNumber = 7, Timestamp = 960,
                    SSRC = 0xCAFEBABE, Payload = [1, 2, 3] \<rparr>"

definition audio_attached :: Source where
  "audio_attached =
     (snd (connectInputs (\<lambda>i. Attaches opusStream (Some (0x11, 0x22, 0x33, 0x44)))
            (New [audioInput])))\<lparr>outputStream := Some opusStream\<rparr>"

definition video_attached :: Source where
  "video_attached =
     (snd (connectInputs (\<lambda>i. Attaches h264Stream (Some (0x11, 0x22, 0x33, 0x44)))
            (New [videoInput])))\<lparr>outputStream := Some h264Stream\<rparr>"

section \<open>The browser's WHEP reader (mmxplayer/pk/reader.js, mmxplayer/whep/reader.js)\<close>

text \<open>
  The two files define the same class \<^verbatim>\<open>MediaMTXWebRTCReader\<close>. The browser calls
  its handlers one at a time; a handler is a function on the reader's fields and on
  the effects it leaves: the requests it passes to \<^verbatim>\<open>fetch\<close>, the warnings it
  logs, and the calls of \<^verbatim>\<open>conf.onError\<close>. The body of a PATCH is the SDP fragment
  generated from the offer data and the candidates: the request keeps the candidates.
\<close>

datatype reader_state = getting_codecs | running | restarting | failed | closed

record Candidate =
  candidate :: string
  sdpMLineIndex :: nat

datatype request =
    POST string
  | PATCH string "Candidate list"      \<comment> \<open>session URL, candidates of the fragment\<close>
  | DELETE string

record Reader =
  state :: reader_state
  pc :: bool                              \<comment> \<open>\<^verbatim>\<open>this.pc !== null\<close>\<close>
  restartTimeout :: bool                  \<comment> \<open>\<^verbatim>\<open>this.restartTimeout !== null\<close>\<close>
  offerData :: bool                       \<comment> \<open>\<^verbatim>\<open>this.offerData !== null\<close>\<close>
  sessionUrl :: "string option"
  queuedCandidates :: "Candidate list"
  requests :: "request list"
  warnings :: "string list"
  onError_calls :: "string list"

text \<open>A reader whose peer connection is set up and whose offer has not been answered.\<close>

definition offering :: Reader where
  "offering = \<lparr> state = running, pc = True, restartTimeout = False, offerData = True,
                 sessionUrl = None, queuedCandidates = [], requests = [],
                 warnings = [], onError_calls = [] \<rparr>"

text \<open>\<^verbatim>\<open>#sendLocalCandidates\<close>: the \<^verbatim>\<open>fetch\<close> itself (both files).\<close>

definition sendLocalCandidates :: "Candidate list \<Rightarrow> Reader \<Rightarrow> Reader" where
  "sendLocalCandidates candidates r =
     (case sessionUrl r of
        None \<Rightarrow> r\<lparr>requests := requests r @ [PATCH [] candidates]\<rparr>
      | Some url \<Rightarrow> r\<lparr>requests := requests r @ [PATCH url candidates]\<rparr>)"

text \<open>\<^verbatim>\<open>#onLocalCandidate\<close> (both files); \<open>None\<close> is the null candidate.\<close>

definition onLocalCandidate :: "Candidate option \<Rightarrow> Reader \<Rightarrow> Reader" where
  "onLocalCandidate evt r =
     (if state r \<noteq> running then r
      else case evt of
             None \<Rightarrow> r
           | Some c \<Rightarrow>
               if sessionUrl r = None
               then r\<lparr>queuedCandidates := queuedCandidates r @ [c]\<rparr>
               else sendLocalCandidates [c] r)"

text \<open>\<^verbatim>\<open>#handleError\<close> of pk/reader.js: no DELETE is sent.\<close>

definition pk_handleError :: "string \<Rightarrow> Reader \<Rightarrow> Reader" where
  "pk_handleError err r =
     (if state r = running
      then r\<lparr>pc := False, offerData := False, sessionUrl := None, queuedCandidates := [],
             state := restarting, restartTimeout := True,
             onError_calls := onError_calls r @ [err @ '', retrying in some seconds'']\<rparr>
      else if state r = getting_codecs
      then r\<lparr>state := failed, onError_calls := onError_calls r @ [err]\<rparr>
      else r)"

text \<open>\<^verbatim>\<open>#handleError\<close> of whep/reader.js: the session is deleted when its URL is known.\<close>

definition whep_handleError :: "string \<Rightarrow> Reader \<Rightarrow> Reader" where
  "whep_handleError err r =
     (if state r = running
      then r\<lparr>pc := False, offerData := False, sessionUrl := None, queuedCandidates := [],
             requests := requests r @ (case sessionUrl r of None \<Rightarrow> [] | Some url \<Rightarrow> [DELETE url]),
             state := restarting, restartTimeout := True,
             onError_calls := onError_calls r @ [err @ '', retrying in some seconds'']\<rparr>
      else if state r = getting_codecs
      then r\<lparr>state := failed, onError_calls := onError_calls r @ [err]\<rparr>
      else r)"

text \<open>The decimal digits of a number, as a template literal prints it.\<close>

fun decimal :: "nat \<Rightarrow> string" where
  "decimal n =
     (if n < 10 then [''0123456789'' ! n]
      else decimal (n div 10) @ [''0123456789'' ! (n mod 10)])"

declare decimal.simps [simp del]

text \<open>
  The handler of the POST's response in \<^verbatim>\<open>#sendOffer\<close>, with the \<^verbatim>\<open>catch\<close> of
  \<^verbatim>\<open>#start\<close> for what it throws (the \<^verbatim>\<open>toString()\<close> of the \<^verbatim>\<open>Error\<close>).
  \<open>status\<close> is the response's status and \<open>url\<close> the session URL resolved from its
  \<^verbatim>\<open>Location\<close> header. pk/reader.js flushes the queue here; whep/reader.js only
  stores the URL.
\<close>

definition pk_sendOffer_then :: "nat \<Rightarrow> string \<Rightarrow> Reader \<Rightarrow> Reader" where
  "pk_sendOffer_then status url r =
     (if status \<noteq> 201
      then pk_handleError (''Error: bad status code '' @ decimal status) r
      else
        let r1 = r\<lparr>sessionUrl := Some url\<rparr>
        in if length (queuedCandidates r1) > 0
           then (sendLocalCandidates (queuedCandidates r1) r1)\<lparr>queuedCandidates := []\<rparr>
           else r1)"

definition whep_sendOffer_then :: "nat \<Rightarrow> string \<Rightarrow> Reader \<Rightarrow> Reader" where
  "whep_sendOffer_then status url r =
     (if status \<noteq> 201
      then whep_handleError (''Error: bad status code '' @ decimal status) r
      else r\<lparr>sessionUrl := Some url\<rparr>)"

text \<open>
  The \<^verbatim>\<open>catch\<close> of the PATCH's \<^verbatim>\<open>fetch\<close> in \<^verbatim>\<open>#sendLocalCandidates\<close>:
  pk/reader.js warns, whep/reader.js calls \<^verbatim>\<open>#handleError\<close>.
\<close>

definition pk_patch_catch :: "string \<Rightarrow> Reader \<Rightarrow> Reader" where
  "pk_patch_catch err r = r\<lparr>warnings := warnings r @ [''Candidate patch failed:'' @ err]\<rparr>"

definition whep_patch_catch :: "string \<Rightarrow> Reader \<Rightarrow> Reader" where
  "whep_patch_catch err r = whep_handleError err r"

text \<open>The candidates \<open>cs\<close> arrive one after the other.\<close>

definition candidates_arrive :: "Candidate list \<Rightarrow> Reader \<Rightarrow> Reader" where
  "candidates_arrive cs r = fold (\<lambda>c. onLocalCandidate (Some c)) cs r"

definition cand1 :: Candidate where
  "cand1 = \<lparr> candidate = ''candidate:1 1 udp 2122260223 192.0.2.1 54400 typ host'',
              sdpMLineIndex = 0 \<rparr>"

definition cand2 :: Candidate where
  "cand2 = \<lparr> candidate = ''candidate:2 1 udp 1686052607 198.51.100.7 54401 typ srflx'',
              sdpMLineIndex = 0 \<rparr>"

section \<open>The adaptive player (mmxplayer/mixabr/mmxplayer.js, mmxplayer/mmxplayer.js)\<close>

text \<open>
  Both files define a class \<^verbatim>\<open>MMXPlayer\<close>. Its handlers run one at a time on the
  browser's event loop. A reader that the player constructs is an entry of a heap:
  what its callbacks close over (the level's index, the stream's bitrate, the flag
  \<^verbatim>\<open>trackHandled\<close>) and whether \<^verbatim>\<open>close()\<close> was called on it. A reader opens its
  WHEP session as soon as it is constructed. \<^verbatim>\<open>setTimeout\<close> adds a pending timer.
  Level indices, counts and times in milliseconds are integers. The metrics that
  \<^verbatim>\<open>processStats\<close> computes from the browser's statistics are finite numbers,
  modelled as reals; they are not fields of the model: \<^verbatim>\<open>decideQuality\<close>, the
  only handler here that reads them, takes them as a parameter. \<^verbatim>\<open>processStats\<close>,
  \<^verbatim>\<open>renderStats\<close> and \<^verbatim>\<open>optimizeForLowLatency\<close> touch only these metrics, the
  page and the video element, which are not modelled.

  A reader's URL is either a string handed on as it is or the result of the
  browser's \<^verbatim>\<open>new URL(relative, base).toString()\<close>, of which the model keeps the
  two arguments.
\<close>

datatype reader_url =
    Plain string
  | Resolved string string        \<comment> \<open>relative reference, base\<close>

record ReaderObj =
  ro_url :: reader_url
  ro_index :: int
  ro_bitrate :: int
  ro_trackHandled :: bool
  ro_closed :: bool

datatype timer_action =
    LoadLevel int             \<comment> \<open>\<^verbatim>\<open>() => this.loadLevel(i)\<close>\<close>
  | LoadLastSuccessful        \<comment> \<open>\<^verbatim>\<open>() => this.loadLevel(this.lastSuccessfulLevelIdx)\<close>\<close>

definition close_reader :: "nat \<Rightarrow> ReaderObj list \<Rightarrow> ReaderObj list" where
  "close_reader i h = (if i < length h then h[i := (h ! i)\<lparr>ro_closed := True\<rparr>] else h)"

text \<open>The readers on which \<^verbatim>\<open>close()\<close> has not been called.\<close>

definition open_readers :: "ReaderObj list \<Rightarrow> nat list" where
  "open_readers h = filter (\<lambda>i. \<not> ro_closed (h ! i)) [0..<length h]"

text \<open>\<^verbatim>\<open>Array.prototype.findIndex\<close>: the first position, or -1.\<close>

fun findIndex :: "('a \<Rightarrow> bool) \<Rightarrow> 'a list \<Rightarrow> int" where
  "findIndex P [] = -1"
| "findIndex P (x # xs) =
     (if P x then 0 else let i = findIndex P xs in if i = -1 then -1 else i + 1)"

subsection \<open>mixabr/mmxplayer.js\<close>

definition DOWNGRADE_LOSS :: real where "DOWNGRADE_LOSS = 0.10"
definition DOWNGRADE_RTT :: real where "DOWNGRADE_RTT = 1500"
definition DOWNGRADE_FPS :: real where "DOWNGRADE_FPS = 10"
definition DOWNGRADE_PERSISTENCE :: int where "DOWNGRADE_PERSISTENCE = 4"
definition UPGRADE_LOSS :: real where "UPGRADE_LOSS = 0.05"
definition UPGRADE_RTT :: real where "UPGRADE_RTT = 1000"
definition UPGRADE_FPS :: real where "UPGRADE_FPS = 10"
definition STABLE_DURATION :: int where "STABLE_DURATION = 5"
definition BASE_PENALTY_TIME :: int where "BASE_PENALTY_TIME = 60000"
definition MAX_PENALTY_TIME :: int where "MAX_PENALTY_TIME = 300000"
definition SWITCH_COOLDOWN :: int where "SWITCH_COOLDOWN = 8"
definition HONEYMOON_TIME :: int where "HONEYMOON_TIME = 20000"

record Variant =
  sv_id :: string
  sv_label :: string
  sv_stream :: string
  sv_bitrate :: int
  sv_codec :: string

record Level =
  lv_variant :: Variant                        \<comment> \<open>the spread \<^verbatim>\<open>...STREAM_VARIANTS.x\<close>\<close>
  lv_fallback :: "Variant option"
  lv_currentEffectiveBitrate :: "int option"

definition hevc1080 :: Variant where
  "hevc1080 = \<lparr> sv_id = ''1080p'', sv_label = ''1080P (HEVC)'', sv_stream = ''hevc1080v'',
                 sv_bitrate = 1000, sv_codec = ''hevc'' \<rparr>"
definition h2641080 :: Variant where
  "h2641080 = \<lparr> sv_id = ''1080p'', sv_label = ''1080P (H264)'', sv_stream = ''d1080v'',
                 sv_bitrate = 2000, sv_codec = ''h264'' \<rparr>"
definition hevc720 :: Variant where
  "hevc720 = \<lparr> sv_id = ''720p'', sv_label = ''720P (HEVC)'', sv_stream = ''hevc720v'',
                sv_bitrate = 400, sv_codec = ''hevc'' \<rparr>"
definition h264720 :: Variant where
  "h264720 = \<lparr> sv_id = ''720p'', sv_label = ''720P (H264)'', sv_stream = ''d720v'',
                sv_bitrate = 1000, sv_codec = ''h264'' \<rparr>"
definition h264540 :: Variant where
  "h264540 = \<lparr> sv_id = ''540p'', sv_label = ''540P (Low)'', sv_stream = ''d540v'',
                sv_bitrate = 400, sv_codec = ''h264'' \<rparr>"
definition audio_variant :: Variant where
  "audio_variant = \<lparr> sv_id = ''audio'', sv_label = ''Audio Only'', sv_stream = ''audiov'',
                      sv_bitrate = 64, sv_codec = ''opus'' \<rparr>"

definition plain :: "Variant \<Rightarrow> Level" where
  "plain v = \<lparr> lv_variant = v, lv_fallback = None, lv_currentEffectiveBitrate = None \<rparr>"

definition with_fallback :: "Variant \<Rightarrow> Variant \<Rightarrow> Level" where
  "with_fallback v fb =
     \<lparr> lv_variant = v, lv_fallback = Some fb, lv_currentEffectiveBitrate = None \<rparr>"

record Player =
  baseUrl :: string
  levels :: "Level list"
  currentReader :: "nat option"
  currentLevelIdx :: int
  lastSuccessfulLevelIdx :: int
  isAuto :: bool
  isSwitching :: bool
  activeLevelUsingFallback :: bool
  stableCount :: int
  badConditionCount :: int
  switchCooldownTimer :: int
  connectionStartTime :: int
  penaltyBox :: "int \<rightharpoonup> int"
  failureCounts :: "int \<rightharpoonup> nat"
  heap :: "ReaderObj list"
  timers :: "(nat \<times> timer_action) list"

text \<open>The constructor; \<open>now\<close> is \<^verbatim>\<open>Date.now()\<close>.\<close>

definition endsWith :: "string \<Rightarrow> string \<Rightarrow> bool" where
  "endsWith s suffix =
     (length suffix \<le> length s \<and> drop (length s - length suffix) s = suffix)"

definition MMXPlayer :: "string \<Rightarrow> int \<Rightarrow> Player" where
  "MMXPlayer url now =
     \<lparr> baseUrl = (if endsWith url ''/'' then url else url @ ''/''),
       levels = [], currentReader = None, currentLevelIdx = 0,
       lastSuccessfulLevelIdx = -1, isAuto = True, isSwitching = False,
       activeLevelUsingFallback = False, stableCount = 0, badConditionCount = 0,
       switchCooldownTimer = 0, connectionStartTime = now, penaltyBox = Map.empty,
       failureCounts = Map.empty, heap = [], timers = [] \<rparr>"

definition loadLevel :: "int \<Rightarrow> Player \<Rightarrow> Player" where
  "loadLevel index p =
     (if index < 0 \<or> index \<ge> int (length (levels p)) then p
      else if isSwitching p \<and> currentLevelIdx p = index \<and> \<not> activeLevelUsingFallback p
      then p
      else
        let level = levels p ! nat index;
            streamConfig = (case lv_fallback level of
                              Some fb \<Rightarrow> if activeLevelUsingFallback p then fb
                                         else lv_variant level
                            | None \<Rightarrow> lv_variant level);
            whepUrl = Resolved (''live/'' @ sv_stream streamConfig @ ''/whep'') (baseUrl p);
            newReader = \<lparr> ro_url = whepUrl, ro_index = index,
                          ro_bitrate = sv_bitrate streamConfig,
                          ro_trackHandled = False, ro_closed = False \<rparr>
        in p\<lparr>isSwitching := True, heap := heap p @ [newReader]\<rparr>)"

definition penalizeLevel :: "int \<Rightarrow> int \<Rightarrow> Player \<Rightarrow> Player" where
  "penalizeLevel index now p =
     (let count = (case failureCounts p index of None \<Rightarrow> 0 | Some c \<Rightarrow> c) + 1;
          penaltyTime = BASE_PENALTY_TIME * 2 ^ (count - 1);
          penaltyTime = (if penaltyTime > MAX_PENALTY_TIME then MAX_PENALTY_TIME
                         else penaltyTime);
          banUntil = now + penaltyTime
      in p\<lparr>failureCounts := (failureCounts p)(index \<mapsto> count),
            penaltyBox := (penaltyBox p)(index \<mapsto> banUntil)\<rparr>)"

text \<open>The \<^verbatim>\<open>onError\<close> callback of the reader \<open>rid\<close>, called at time \<open>now\<close>.\<close>

definition onError :: "nat \<Rightarrow> int \<Rightarrow> Player \<Rightarrow> Player" where
  "onError rid now p =
     (if rid \<ge> length (heap p) then p
      else
        let index = ro_index (heap p ! rid);
            level = levels p ! nat index
        in if lv_fallback level \<noteq> None \<and> \<not> activeLevelUsingFallback p
           then p\<lparr>activeLevelUsingFallback := True, isSwitching := False,
                  timers := timers p @ [(100, LoadLevel index)]\<rparr>
           else
             let p1 = (penalizeLevel index now p)\<lparr>isSwitching := False\<rparr>
             in if lastSuccessfulLevelIdx p1 \<noteq> -1 \<and> lastSuccessfulLevelIdx p1 \<noteq> index
                then p1\<lparr>activeLevelUsingFallback := False,
                        timers := timers p1 @ [(100, LoadLastSuccessful)]\<rparr>
                else if \<not> isAuto p1 then p1
                else if index < int (length (levels p1)) - 1
                then p1\<lparr>activeLevelUsingFallback := False,
                        timers := timers p1 @ [(200, LoadLevel (index + 1))]\<rparr>
                else p1)"

text \<open>The \<^verbatim>\<open>onTrack\<close> callback of the reader \<open>rid\<close>, called at time \<open>now\<close>.\<close>

definition onTrack :: "nat \<Rightarrow> int \<Rightarrow> Player \<Rightarrow> Player" where
  "onTrack rid now p =
     (if rid \<ge> length (heap p) then p
      else if ro_trackHandled (heap p ! rid) then p
      else
        let index = ro_index (heap p ! rid);
            h1 = (heap p)[rid := (heap p ! rid)\<lparr>ro_trackHandled := True\<rparr>];
            h2 = (case currentReader p of
                    Some old \<Rightarrow> if old \<noteq> rid then close_reader old h1 else h1
                  | None \<Rightarrow> h1);
            level = levels p ! nat index
        in p\<lparr>connectionStartTime := now, lastSuccessfulLevelIdx := index, heap := h2,
              currentReader := Some rid, currentLevelIdx := index,
              levels := (levels p)[nat index :=
                 level\<lparr>lv_currentEffectiveBitrate := Some (ro_bitrate (heap p ! rid))\<rparr>],
              stableCount := 0, badConditionCount := 0, isSwitching := False,
              switchCooldownTimer := SWITCH_COOLDOWN\<rparr>)"

definition manualSwitch :: "string \<Rightarrow> Player \<Rightarrow> Player" where
  "manualSwitch levelId p =
     (if levelId = ''auto'' then p\<lparr>isAuto := True\<rparr>
      else
        let p1 = p\<lparr>isAuto := False\<rparr>;
            idx = findIndex (\<lambda>l. sv_id (lv_variant l) = levelId) (levels p1)
        in if idx \<noteq> -1
           then loadLevel idx
                  (p1\<lparr>failureCounts := (failureCounts p1)(idx \<mapsto> 0),
                       penaltyBox := (penaltyBox p1)(idx := None),
                       activeLevelUsingFallback := False\<rparr>)
           else p1)"

text \<open>
  \<^verbatim>\<open>isLevelBanned\<close>, called at time \<open>now\<close>: the answer and the player, whose expired
  ban is deleted. A ban time of 0 is falsy.
\<close>

definition isLevelBanned :: "int \<Rightarrow> int \<Rightarrow> Player \<Rightarrow> bool \<times> Player" where
  "isLevelBanned index now p =
     (case penaltyBox p index of
        None \<Rightarrow> (False, p)
      | Some banUntil \<Rightarrow>
          if banUntil = 0 then (False, p)
          else if now < banUntil then (True, p)
          else (False, p\<lparr>penaltyBox := (penaltyBox p)(index := None)\<rparr>))"

text \<open>
  The metrics that \<^verbatim>\<open>decideQuality\<close> reads: \<^verbatim>\<open>emaMetrics\<close> and three fields of
  \<^verbatim>\<open>rawMetrics\<close>.
\<close>

record Metrics =
  ema_rtt :: real
  ema_packetLoss :: real
  ema_fps :: real
  raw_rtt :: real
  raw_bitrate :: real
  raw_fps :: real

text \<open>
  \<^verbatim>\<open>decideQuality\<close> in two blocks. The first is the block under
  \<^verbatim>\<open>if (currentIdx < this.levels.length - 1)\<close>; its first component says that
  \<^verbatim>\<open>decideQuality\<close> returns from it.
\<close>

definition decideQuality_down :: "bool \<Rightarrow> bool \<Rightarrow> Player \<Rightarrow> bool \<times> Player" where
  "decideQuality_down triggerReason isCritical p =
     (let currentIdx = currentLevelIdx p
      in if currentIdx < int (length (levels p)) - 1
         then
           if triggerReason \<or> isCritical
           then
             if isCritical
             then (True, (loadLevel (currentIdx + 1) (p\<lparr>activeLevelUsingFallback := False\<rparr>))
                            \<lparr>badConditionCount := 0\<rparr>)
             else
               let p1 = p\<lparr>badConditionCount := badConditionCount p + 1\<rparr>
               in if badConditionCount p1 \<ge> DOWNGRADE_PERSISTENCE
                  then (True, loadLevel (currentIdx + 1) (p1\<lparr>activeLevelUsingFallback := False\<rparr>))
                  else (False, p1)
           else (False, p\<lparr>badConditionCount := 0\<rparr>)
         else (False, p))"

text \<open>
  The second is the block under \<^verbatim>\<open>if (currentIdx > 0)\<close>; \<open>now\<close> is the time
  that \<^verbatim>\<open>isLevelBanned\<close> reads.
\<close>

definition decideQuality_up :: "Metrics \<Rightarrow> bool \<Rightarrow> int \<Rightarrow> Player \<Rightarrow> Player" where
  "decideQuality_up m isAudioOnly now p =
     (let currentIdx = currentLevelIdx p
      in if currentIdx > 0
         then
           let targetIdx = currentIdx - 1
           in case isLevelBanned targetIdx now p of
                (True, p1) \<Rightarrow> p1\<lparr>stableCount := 0\<rparr>
              | (False, p1) \<Rightarrow>
                  let isFpsHealthy = (isAudioOnly \<or> ema_fps m \<ge> UPGRADE_FPS);
                      isGoodNetwork = (ema_packetLoss m \<le> UPGRADE_LOSS \<and> ema_rtt m < UPGRADE_RTT
                                       \<and> isFpsHealthy)
                  in if isGoodNetwork
                     then
                       let p2 = p1\<lparr>stableCount := stableCount p1 + 1\<rparr>
                       in if stableCount p2 \<ge> STABLE_DURATION
                          then (loadLevel targetIdx (p2\<lparr>activeLevelUsingFallback := False\<rparr>))
                                 \<lparr>stableCount := 0\<rparr>
                          else p2
                     else p1\<lparr>stableCount := 0\<rparr>
         else p)"

text \<open>
  \<^verbatim>\<open>decideQuality\<close> with the metrics \<open>m\<close>; \<open>now\<close> and \<open>now'\<close> are the times that it
  and \<^verbatim>\<open>isLevelBanned\<close> read. With no level at \<^verbatim>\<open>currentLevelIdx\<close> it throws
  before it has changed anything, and the caller catches.
\<close>

definition decideQuality :: "Metrics \<Rightarrow> int \<Rightarrow> int \<Rightarrow> Player \<Rightarrow> Player" where
  "decideQuality m now now' p =
     (let currentIdx = currentLevelIdx p
      in if currentIdx < 0 \<or> currentIdx \<ge> int (length (levels p)) then p
         else
           let levelConfig = levels p ! nat currentIdx;
               isAudioOnly = (sv_id (lv_variant levelConfig) = ''audio'');
               activeTargetBitrate =
                 (case lv_currentEffectiveBitrate levelConfig of
                    Some b \<Rightarrow> if b \<noteq> 0 then b else sv_bitrate (lv_variant levelConfig)
                  | None \<Rightarrow> sv_bitrate (lv_variant levelConfig));
               isHoneymoon = (now - connectionStartTime p < HONEYMOON_TIME);
               triggerReason =
                 (ema_packetLoss m > DOWNGRADE_LOSS
                  \<or> ema_rtt m > DOWNGRADE_RTT
                  \<or> (\<not> isAudioOnly \<and> \<not> isHoneymoon \<and> ema_fps m < DOWNGRADE_FPS)
                  \<or> (\<not> isAudioOnly \<and> \<not> isHoneymoon \<and> raw_bitrate m > 0
                      \<and> raw_bitrate m < real_of_int activeTargetBitrate * 0.7));
               isVideoFrozen = (\<not> isAudioOnly \<and> \<not> isHoneymoon
                                \<and> (ema_fps m \<le> 1 \<or> raw_fps m \<le> 1));
               isCritical = (raw_rtt m > 3000 \<or> isVideoFrozen)
           in case decideQuality_down triggerReason isCritical p of
                (True, p1) \<Rightarrow> p1
              | (False, p1) \<Rightarrow> decideQuality_up m isAudioOnly now' p1)"

text \<open>
  The callback of the statistics interval. Its synchronous part counts the cooldown
  down and decides whether to await the browser's statistics (the first component);
  \<open>hasPc\<close> says whether the current reader has a peer connection. \<^verbatim>\<open>onStats\<close> is
  the continuation after the \<^verbatim>\<open>await\<close>, for a report with a succeeded candidate
  pair, when \<^verbatim>\<open>processStats\<close> has computed the metrics \<open>m\<close>.
\<close>

definition statsTick :: "bool \<Rightarrow> Player \<Rightarrow> bool \<times> Player" where
  "statsTick hasPc p =
     (let p1 = (if switchCooldownTimer p > 0
                then p\<lparr>switchCooldownTimer := switchCooldownTimer p - 1\<rparr> else p)
      in if isSwitching p1 \<or> currentReader p1 = None \<or> \<not> hasPc then (False, p1)
         else (True, p1))"

definition onStats :: "Metrics \<Rightarrow> int \<Rightarrow> int \<Rightarrow> Player \<Rightarrow> Player" where
  "onStats m now now' p =
     (if isAuto p \<and> switchCooldownTimer p = 0 then decideQuality m now now' p else p)"

definition destroy :: "Player \<Rightarrow> Player" where
  "destroy p =
     (case currentReader p of
        Some r \<Rightarrow> p\<lparr>heap := close_reader r (heap p)\<rparr>
      | None \<Rightarrow> p)"

text \<open>\<^verbatim>\<open>start\<close>, after the codec detection answered \<open>hasHevc\<close>.\<close>

definition start :: "bool \<Rightarrow> Player \<Rightarrow> Player" where
  "start hasHevc p =
     loadLevel 0
       (p\<lparr>levels := (if hasHevc
                      then [with_fallback hevc1080 h2641080, with_fallback hevc720 h264720,
                            plain h264540, plain audio_variant]
                      else [plain h2641080, plain h264720, plain h264540,
                            plain audio_variant]),
           currentLevelIdx := 0\<rparr>)"

text \<open>The pending timer at position \<open>k\<close> fires.\<close>

definition fire_timer :: "nat \<Rightarrow> Player \<Rightarrow> Player" where
  "fire_timer k p =
     (if k \<ge> length (timers p) then p
      else
        let p1 = p\<lparr>timers := take k (timers p) @ drop (Suc k) (timers p)\<rparr>
        in case snd (timers p ! k) of
             LoadLevel i \<Rightarrow> loadLevel i p1
           | LoadLastSuccessful \<Rightarrow> loadLevel (lastSuccessfulLevelIdx p1) p1)"

text \<open>What the event loop can run on a started player.\<close>

datatype player_event =
    EvLoadLevel int
  | EvError nat int
  | EvTrack nat int
  | EvManualSwitch string
  | EvTimer nat
  | EvTick bool
  | EvStats Metrics int int
  | EvDestroy

fun player_step :: "player_event \<Rightarrow> Player \<Rightarrow> Player" where
  "player_step (EvLoadLevel i) p = loadLevel i p"
| "player_step (EvError rid now) p = onError rid now p"
| "player_step (EvTrack rid now) p = onTrack rid now p"
| "player_step (EvManualSwitch levelId) p = manualSwitch levelId p"
| "player_step (EvTimer k) p = fire_timer k p"
| "player_step (EvTick hasPc) p = snd (statsTick hasPc p)"
| "player_step (EvStats m now now') p = onStats m now now' p"
| "player_step EvDestroy p = destroy p"

text \<open>
  An event that is neither \<^verbatim>\<open>destroy\<close> nor a reader's first track: a track event
  is one of a reader of \<open>p\<close> whose track \<open>p\<close> has handled already.
\<close>

fun no_first_track :: "Player \<Rightarrow> player_event \<Rightarrow> bool" where
  "no_first_track p (EvTrack rid now) = (rid < length (heap p) \<and> ro_trackHandled (heap p ! rid))"
| "no_first_track p EvDestroy = False"
| "no_first_track p e = True"

text \<open>
  A reader is attached: the current reader is one of the heap and \<^verbatim>\<open>close()\<close> has
  not been called on it.
\<close>

definition attached :: "Player \<Rightarrow> bool" where
  "attached p =
     (case currentReader p of
        None \<Rightarrow> False
      | Some r \<Rightarrow> r < length (heap p) \<and> \<not> ro_closed (heap p ! r))"

text \<open>
  What holds of the readers of a player at all times: a closed reader has had its
  track handled, and so has the current reader.
\<close>

definition readers_ok :: "Player \<Rightarrow> bool" where
  "readers_ok p =
     (list_all (\<lambda>ro. ro_closed ro \<longrightarrow> ro_trackHandled ro) (heap p)
      \<and> (case currentReader p of
            None \<Rightarrow> True
          | Some r \<Rightarrow> r < length (heap p) \<and> ro_trackHandled (heap p ! r)))"

text \<open>
  From \<open>p\<close> to \<open>p'\<close> the current reader is the same, the readers of \<open>p\<close> are as
  they were, and every reader constructed since is open and has had no track
  handled.
\<close>

definition keeps_readers :: "Player \<Rightarrow> Player \<Rightarrow> bool" where
  "keeps_readers p p' =
     (currentReader p' = currentReader p
      \<and> take (length (heap p)) (heap p') = heap p
      \<and> list_all (\<lambda>ro. \<not> ro_closed ro \<and> \<not> ro_trackHandled ro)
            (drop (length (heap p)) (heap p')))"

subsection \<open>mmxplayer.js (the simulcast player)\<close>

definition sc_BASE_PENALTY_TIME :: int where "sc_BASE_PENALTY_TIME = 30000"
definition sc_MAX_PENALTY_TIME :: int where "sc_MAX_PENALTY_TIME = 120000"
definition sc_SWITCH_COOLDOWN :: int where "sc_SWITCH_COOLDOWN = 5"

record ScLevel =
  sl_id :: string
  sl_label :: string
  sl_maxBitrate :: int
  sl_expectedBitrate :: int
  sl_codec :: string
  sl_audioOnly :: bool

definition SIMULCAST_LEVELS :: "ScLevel list" where
  "SIMULCAST_LEVELS =
     [\<lparr> sl_id = ''high'', sl_label = ''High (Original)'', sl_maxBitrate = 0,
        sl_expectedBitrate = 3000, sl_codec = ''auto'', sl_audioOnly = False \<rparr>,
      \<lparr> sl_id = ''medium'', sl_label = ''Medium (SD)'', sl_maxBitrate = 1500,
        sl_expectedBitrate = 1200, sl_codec = ''auto'', sl_audioOnly = False \<rparr>,
      \<lparr> sl_id = ''low'', sl_label = ''Low (Smooth)'', sl_maxBitrate = 500,
        sl_expectedBitrate = 400, sl_codec = ''auto'', sl_audioOnly = False \<rparr>,
      \<lparr> sl_id = ''audio'', sl_label = ''Audio Only'', sl_maxBitrate = 64,
        sl_expectedBitrate = 64, sl_codec = ''opus'', sl_audioOnly = True \<rparr>]"

record ScPlayer =
  sc_simulcastUrl :: string
  sc_levels :: "ScLevel list"
  sc_currentReader :: "nat option"
  sc_currentLevelIdx :: int
  sc_isAuto :: bool
  sc_isSwitching :: bool
  sc_stableCount :: int
  sc_badConditionCount :: int
  sc_switchCooldownTimer :: int
  sc_connectionStartTime :: int
  sc_penaltyBox :: "int \<rightharpoonup> int"
  sc_failureCounts :: "int \<rightharpoonup> nat"
  sc_heap :: "ReaderObj list"
  sc_timers :: "(nat \<times> timer_action) list"

definition sc_MMXPlayer :: "string \<Rightarrow> int \<Rightarrow> ScPlayer" where
  "sc_MMXPlayer url now =
     \<lparr> sc_simulcastUrl = url, sc_levels = SIMULCAST_LEVELS, sc_currentReader = None,
       sc_currentLevelIdx = 0, sc_isAuto = True, sc_isSwitching = False,
       sc_stableCount = 0, sc_badConditionCount = 0, sc_switchCooldownTimer = 0,
       sc_connectionStartTime = now, sc_penaltyBox = Map.empty,
       sc_failureCounts = Map.empty, sc_heap = [], sc_timers = [] \<rparr>"

text \<open>This \<^verbatim>\<open>loadLevel\<close> stops the old reader before it constructs the new one.\<close>

definition sc_loadLevel :: "int \<Rightarrow> ScPlayer \<Rightarrow> ScPlayer" where
  "sc_loadLevel index p =
     (if index < 0 \<or> index \<ge> int (length (sc_levels p)) then p
      else if sc_isSwitching p \<and> sc_currentLevelIdx p = index then p
      else
        let level = sc_levels p ! nat index;
            p1 = p\<lparr>sc_isSwitching := True\<rparr>;
            p2 = (case sc_currentReader p1 of
                    Some r \<Rightarrow> p1\<lparr>sc_heap := close_reader r (sc_heap p1),
                                 sc_currentReader := None\<rparr>
                  | None \<Rightarrow> p1);
            newReader = \<lparr> ro_url = Plain (sc_simulcastUrl p), ro_index = index,
                          ro_bitrate = sl_maxBitrate level,
                          ro_trackHandled = False, ro_closed = False \<rparr>
        in p2\<lparr>sc_heap := sc_heap p2 @ [newReader]\<rparr>)"

definition sc_onError :: "nat \<Rightarrow> ScPlayer \<Rightarrow> ScPlayer" where
  "sc_onError rid p =
     (if rid \<ge> length (sc_heap p) then p
      else
        let index = ro_index (sc_heap p ! rid);
            p1 = p\<lparr>sc_isSwitching := False\<rparr>
        in if sc_isAuto p1 \<and> index < int (length (sc_levels p1)) - 1
           then p1\<lparr>sc_timers := sc_timers p1 @ [(500, LoadLevel (index + 1))]\<rparr>
           else p1)"

definition sc_onTrack :: "nat \<Rightarrow> int \<Rightarrow> ScPlayer \<Rightarrow> ScPlayer" where
  "sc_onTrack rid now p =
     (if rid \<ge> length (sc_heap p) then p
      else p\<lparr>sc_connectionStartTime := now, sc_currentReader := Some rid,
             sc_currentLevelIdx := ro_index (sc_heap p ! rid), sc_stableCount := 0,
             sc_badConditionCount := 0, sc_isSwitching := False,
             sc_switchCooldownTimer := sc_SWITCH_COOLDOWN\<rparr>)"

definition sc_manualSwitch :: "string \<Rightarrow> ScPlayer \<Rightarrow> ScPlayer" where
  "sc_manualSwitch levelId p =
     (if levelId = ''auto'' then p\<lparr>sc_isAuto := True\<rparr>
      else
        let p1 = p\<lparr>sc_isAuto := False\<rparr>;
            idx = findIndex (\<lambda>l. sl_id l = levelId) (sc_levels p1)
        in if idx \<noteq> -1 then sc_loadLevel idx p1 else p1)"

definition sc_start :: "ScPlayer \<Rightarrow> ScPlayer" where
  "sc_start p = sc_loadLevel 0 (p\<lparr>sc_currentLevelIdx := 0\<rparr>)"

text \<open>
  A mixabr player playing its first level, the same after two failures of a reader
  at level 0, and a simulcast player playing its first level.
\<close>

definition failing_twice :: Player where
  "failing_twice = onError 0 2000 (onError 0 1000 (start False (MMXPlayer ''http://h/'' 0)))"

definition playing_1080 :: Player where
  "playing_1080 = onTrack 0 5 (start False (MMXPlayer ''http://h/'' 0))"

definition sc_playing_high :: ScPlayer where
  "sc_playing_high = sc_onTrack 0 5 (sc_start (sc_MMXPlayer ''http://h/live/sim/whep'' 0))"

text \<open>
  Metrics of a connection whose round-trip time is critical, and a run of the event
  loop: the cooldown of eight ticks passes, the statistics report these metrics (the
  player downgrades), and the new reader has its first track.
\<close>

definition poor_network :: Metrics where
  "poor_network = \<lparr> ema_rtt = 2000, ema_packetLoss = 0.2, ema_fps = 25,
                     raw_rtt = 3500, raw_bitrate = 900, raw_fps = 25 \<rparr>"

definition degrading :: "player_event list" where
  "degrading =
     [EvTick True, EvTick True, EvTick True, EvTick True, EvTick True, EvTick True,
      EvTick True, EvTick True, EvStats poor_network 30000 30000, EvTrack 1 31000]"

chapter \<open>Properties\<close>

section \<open>Maximum MPEG-TS payload of the SRT forwarder\<close>

lemma int64_wrap_id: "- (2 ^ 63) \<le> x \<Longrightarrow> x < 2 ^ 63 \<Longrightarrow> int64_wrap x = x"
  unfolding int64_wrap_def by (simp add: mod_pos_pos_trivial)

lemma sdiv_nonneg_eq_div: "0 \<le> (a::int) \<Longrightarrow> 0 < b \<Longrightarrow> a sdiv b = a div b"
  by (simp add: signed_divide_int_def sgn_if)

lemma srtMaxPayloadSize_floor:
  assumes "16 \<le> udpMaxPayloadSize f" and "udpMaxPayloadSize f < 2 ^ 63"
  shows "srtMaxPayloadSize f = ((udpMaxPayloadSize f - 16) div 188) * 188"
proof -
  let ?a = "udpMaxPayloadSize f - 16"
  have a: "0 \<le> ?a" "?a < 2 ^ 63" using assms by auto
  have q: "0 \<le> ?a div 188" "?a div 188 \<le> ?a"
    using a by (simp_all add: pos_imp_zdiv_nonneg_iff)
  have m: "?a div 188 * 188 \<le> ?a" using a by presburger
  have m0: "0 \<le> ?a div 188 * 188" using q by simp
  show ?thesis
    unfolding srtMaxPayloadSize_def go_mul_def go_div_def go_sub_def
    using a q m m0 by (simp add: int64_wrap_id sdiv_nonneg_eq_div)
qed

lemma srtMaxPayloadSize_zero:
  assumes "-172 < udpMaxPayloadSize f" and "udpMaxPayloadSize f < 204"
  shows "srtMaxPayloadSize f = 0"
proof -
  have "int64_wrap (udpMaxPayloadSize f - 16) = udpMaxPayloadSize f - 16"
    using assms by (intro int64_wrap_id) auto
  moreover have "(udpMaxPayloadSize f - 16) sdiv 188 = 0"
    using assms by (auto simp: signed_divide_int_def sgn_if abs_if div_pos_pos_trivial)
  ultimately show ?thesis
    unfolding srtMaxPayloadSize_def go_mul_def go_div_def go_sub_def
    by (simp add: int64_wrap_def)
qed

text \<open>
  Claim C6, as stated, fails: Go's division truncates towards zero, so with
  \<^verbatim>\<open>udpMaxPayloadSize = 0\<close> the code returns 0 where the floor formula gives -188,
  and with \<^verbatim>\<open>udpMaxPayloadSize = -172\<close> (below 16 + 188) the code returns -188,
  not 0.
\<close>

theorem C6_floor_counterexample:
  "srtMaxPayloadSize (newSRTForwarder ''srt://sink:8890'' False 0) = 0
   \<and> ((0 - 16) div 188) * 188 = (-188 :: int)
   \<and> (-172 :: int) < 16 + 188
   \<and> srtMaxPayloadSize (newSRTForwarder ''srt://sink:8890'' False (-172)) = -188"
  by (simp add: srtMaxPayloadSize_def newSRTForwarder_def go_mul_def go_div_def go_sub_def
      int64_wrap_def signed_divide_int_def)

text \<open>
  Claim C6, amended: for every configured \<^verbatim>\<open>udpMaxPayloadSize\<close> of at least 16 (and
  within Go's \<^verbatim>\<open>int\<close>) the SRT forwarder's maximum MPEG-TS payload size equals
  \<open>floor ((udpMaxPayloadSize - 16) / 188) * 188\<close>; and whenever
  \<open>-172 < udpMaxPayloadSize < 16 + 188\<close> the computed maximum payload is 0.
\<close>

theorem C6_srtMaxPayloadSize:
  "(16 \<le> udpMaxPayloadSize f \<and> udpMaxPayloadSize f < 2 ^ 63 \<longrightarrow>
      srtMaxPayloadSize f = ((udpMaxPayloadSize f - 16) div 188) * 188)
   \<and> (-172 < udpMaxPayloadSize g \<and> udpMaxPayloadSize g < 16 + 188 \<longrightarrow>
      srtMaxPayloadSize g = 0)"
  using srtMaxPayloadSize_floor [of f] srtMaxPayloadSize_zero [of g] by simp

theorem C6_srtMaxPayloadSize_witness:
  "srtMaxPayloadSize (newSRTForwarder ''srt://sink:8890'' False 1472) = 1316
   \<and> srtMaxPayloadSize (newSRTForwarder ''srt://sink:8890'' False 100) = 0"
  using C6_srtMaxPayloadSize [of "newSRTForwarder ''srt://sink:8890'' False 1472"
      "newSRTForwarder ''srt://sink:8890'' False 100"]
  by (simp add: newSRTForwarder_def)

section \<open>Start is one-shot\<close>

lemma srt_Start_started:
  "s_stream f \<noteq> None \<Longrightarrow> srt_Start strm f = (Some ErrAlreadyStarted, f)"
  by (simp add: srt_Start_def)

lemma whip_Start_started:
  "w_stream f \<noteq> None \<Longrightarrow> whip_Start strm f = (Some ErrAlreadyStarted, f)"
  by (simp add: whip_Start_def)

text \<open>No step of the goroutine writes \<^verbatim>\<open>f.stream\<close>.\<close>

lemma srt_run_stream: "s_stream (srt_run ev f) = s_stream f"
  unfolding srt_run_def srt_exit_def
  by (simp add: Let_def split: srt_pc.splits run_event.splits option.splits)

lemma whip_run_stream: "w_stream (whip_run ev f) = w_stream f"
  unfolding whip_run_def whip_exit_def
  by (simp add: Let_def split: whip_pc.splits run_event.splits option.splits)

lemma srt_step_stream:
  "e \<noteq> EvStopFinish \<Longrightarrow> s_stream f \<noteq> None \<Longrightarrow> s_stream (srt_step e f) \<noteq> None"
  by (cases e) (simp_all add: srt_run_stream srt_Start_def srt_Stop_cancel_def)

lemma whip_step_stream:
  "e \<noteq> EvStopFinish \<Longrightarrow> w_stream f \<noteq> None \<Longrightarrow> w_stream (whip_step e f) \<noteq> None"
  by (cases e) (simp_all add: whip_run_stream whip_Start_def whip_Stop_cancel_def)

lemma srt_fold_stream:
  "EvStopFinish \<notin> set evs \<Longrightarrow> s_stream f \<noteq> None
   \<Longrightarrow> s_stream (fold srt_step evs f) \<noteq> None"
proof (induction evs arbitrary: f)
  case Nil
  then show ?case by simp
next
  case (Cons e evs)
  from Cons.prems have ne: "e \<noteq> EvStopFinish" and rest: "EvStopFinish \<notin> set evs"
    by auto
  have "s_stream (srt_step e f) \<noteq> None"
    using srt_step_stream [OF ne Cons.prems(2)] .
  from Cons.IH [OF rest this] show ?case by simp
qed

lemma whip_fold_stream:
  "EvStopFinish \<notin> set evs \<Longrightarrow> w_stream f \<noteq> None
   \<Longrightarrow> w_stream (fold whip_step evs f) \<noteq> None"
proof (induction evs arbitrary: f)
  case Nil
  then show ?case by simp
next
  case (Cons e evs)
  from Cons.prems have ne: "e \<noteq> EvStopFinish" and rest: "EvStopFinish \<notin> set evs"
    by auto
  have "w_stream (whip_step e f) \<noteq> None"
    using whip_step_stream [OF ne Cons.prems(2)] .
  from Cons.IH [OF rest this] show ?case by simp
qed

text \<open>
  Claim C7: for the SRT and the WHIP forwarder, once \<^verbatim>\<open>Start\<close> has succeeded with
  a stream, and whatever the goroutine and the owner did since short of completing
  \<^verbatim>\<open>Stop\<close>, another call of \<^verbatim>\<open>Start\<close> returns the already-started error to its
  caller and leaves the forwarder exactly as it was.
\<close>

theorem C7_Start_one_shot:
  assumes "EvStopFinish \<notin> set evs"
  shows "(fst (srt_Start (Some s) f) = None \<longrightarrow>
            srt_Start strm (fold srt_step evs (snd (srt_Start (Some s) f)))
              = (Some ErrAlreadyStarted, fold srt_step evs (snd (srt_Start (Some s) f))))
       \<and> (fst (whip_Start (Some s) g) = None \<longrightarrow>
            whip_Start strm (fold whip_step evs (snd (whip_Start (Some s) g)))
              = (Some ErrAlreadyStarted, fold whip_step evs (snd (whip_Start (Some s) g))))"
proof (intro conjI impI)
  assume "fst (srt_Start (Some s) f) = None"
  then have "s_stream (snd (srt_Start (Some s) f)) \<noteq> None"
    by (simp add: srt_Start_def split: if_splits)
  from srt_fold_stream [OF assms this]
  show "srt_Start strm (fold srt_step evs (snd (srt_Start (Some s) f)))
          = (Some ErrAlreadyStarted, fold srt_step evs (snd (srt_Start (Some s) f)))"
    by (rule srt_Start_started)
next
  assume "fst (whip_Start (Some s) g) = None"
  then have "w_stream (snd (whip_Start (Some s) g)) \<noteq> None"
    by (simp add: whip_Start_def split: if_splits)
  from whip_fold_stream [OF assms this]
  show "whip_Start strm (fold whip_step evs (snd (whip_Start (Some s) g)))
          = (Some ErrAlreadyStarted, fold whip_step evs (snd (whip_Start (Some s) g)))"
    by (rule whip_Start_started)
qed

theorem C7_Start_one_shot_witness:
  "fst (srt_Start (Some 1) (newSRTForwarder ''srt://sink:8890'' True 1472)) = None
   \<and> fst (srt_Start (Some 2)
        (fold srt_step [EvRun (DialOk 3), EvRun SetupOk, EvStopCancel]
           (snd (srt_Start (Some 1) (newSRTForwarder ''srt://sink:8890'' True 1472)))))
       = Some ErrAlreadyStarted
   \<and> snd (srt_Start (Some 2)
        (fold srt_step [EvRun (DialOk 3), EvRun SetupOk, EvStopCancel]
           (snd (srt_Start (Some 1) (newSRTForwarder ''srt://sink:8890'' True 1472)))))
       = fold srt_step [EvRun (DialOk 3), EvRun SetupOk, EvStopCancel]
           (snd (srt_Start (Some 1) (newSRTForwarder ''srt://sink:8890'' True 1472)))
   \<and> fst (whip_Start (Some 1) (newWebRTCForwarder ''https://sink/whip'' True)) = None
   \<and> fst (whip_Start (Some 2)
        (fold whip_step [EvRun (DialOk 3), EvRun SetupOk, EvStopCancel]
           (snd (whip_Start (Some 1) (newWebRTCForwarder ''https://sink/whip'' True)))))
       = Some ErrAlreadyStarted"
  using C7_Start_one_shot [of "[EvRun (DialOk 3), EvRun SetupOk, EvStopCancel]" 1
      "newSRTForwarder ''srt://sink:8890'' True 1472" "Some 2"
      "newWebRTCForwarder ''https://sink/whip'' True"]
  by (simp add: srt_Start_def whip_Start_def newSRTForwarder_def newWebRTCForwarder_def)

section \<open>What IsRunning reports\<close>

lemma whip_inv_new: "whip_inv (newWebRTCForwarder u r)"
  by (simp add: whip_inv_def newWebRTCForwarder_def)

lemma whip_inv_run:
  assumes "whip_inv f"
  shows "whip_inv (whip_run ev f)"
proof (cases "w_pc f")
  case W_None
  then show ?thesis using assms by (simp add: whip_run_def)
next
  case W_RunInner
  then show ?thesis using assms
    by (cases ev) (auto simp: whip_inv_def whip_run_def Let_def split: option.splits)
next
  case W_Setup
  then show ?thesis using assms
    by (cases ev) (auto simp: whip_inv_def whip_run_def)
next
  case (W_Initialized c)
  then show ?thesis using assms
    by (auto simp: whip_inv_def whip_run_def split: option.splits)
next
  case (W_Attached s r c)
  then show ?thesis using assms
    by (auto simp: whip_inv_def whip_run_def)
next
  case (W_Serving s r c)
  then show ?thesis using assms
    by (cases ev) (auto simp: whip_inv_def whip_run_def)
next
  case (W_Closed s r e)
  then show ?thesis using assms
    by (auto simp: whip_inv_def whip_run_def)
next
  case (W_Returned e)
  then show ?thesis using assms
    by (cases e) (auto simp: whip_inv_def whip_run_def)
next
  case W_CheckCtx
  then show ?thesis using assms
    by (auto simp: whip_inv_def whip_run_def whip_exit_def)
next
  case W_Waiting
  then show ?thesis using assms
    by (cases ev) (auto simp: whip_inv_def whip_run_def whip_exit_def)
next
  case W_Panicked
  then show ?thesis using assms by (simp add: whip_run_def)
qed

lemma whip_inv_step:
  assumes "whip_inv f"
  shows "whip_inv (whip_step e f)"
proof (cases e)
  case (EvStart s)
  show ?thesis
  proof (cases "w_stream f")
    case None
    then have "w_pc f = W_None" using assms by (auto simp: whip_inv_def)
    then show ?thesis using assms None EvStart
      by (simp add: whip_inv_def whip_Start_def)
  next
    case (Some a)
    then show ?thesis using assms EvStart by (simp add: whip_Start_def)
  qed
next
  case EvStopCancel
  then show ?thesis using assms
    by (cases "w_pc f") (simp_all add: whip_inv_def whip_Stop_cancel_def)
next
  case EvStopFinish
  show ?thesis
  proof (cases "w_wg f = 0")
    case True
    then have "w_pc f = W_None" using assms by (auto simp: whip_inv_def)
    then show ?thesis using assms True EvStopFinish
      by (simp add: whip_inv_def whip_Stop_finish_def)
  next
    case False
    then show ?thesis using assms EvStopFinish by (simp add: whip_Stop_finish_def)
  qed
next
  case (EvRun ev)
  then show ?thesis using assms by (simp add: whip_inv_run)
qed

lemma whip_inv_fold: "whip_inv f \<Longrightarrow> whip_inv (fold whip_step evs f)"
  by (induction evs arbitrary: f) (simp_all add: whip_inv_step)

lemma whip_inv_running:
  assumes "whip_inv f" and "whip_IsRunning f"
  shows "whipClient f \<noteq> None
         \<and> (\<exists>s r. w_stream f = Some s \<and> w_reader f = Some r \<and> (s, r) \<in> w_attached f)"
  using assms by (cases "w_pc f") (auto simp: whip_inv_def whip_IsRunning_def)

text \<open>
  The WHIP forwarder keeps the lifecycle invariant. In every state reachable from a
  new forwarder by calls of \<^verbatim>\<open>Start\<close> (with a stream) and \<^verbatim>\<open>Stop\<close> and by
  steps of its goroutine, whenever \<^verbatim>\<open>IsRunning\<close> returns true the forwarder holds
  a non-nil WHIP client and its reader is added to the source stream.
\<close>

theorem whip_IsRunning_invariant:
  assumes "whip_IsRunning (fold whip_step evs (newWebRTCForwarder u rc))"
  shows "whipClient (fold whip_step evs (newWebRTCForwarder u rc)) \<noteq> None
         \<and> (\<exists>s r. w_stream (fold whip_step evs (newWebRTCForwarder u rc)) = Some s
                \<and> w_reader (fold whip_step evs (newWebRTCForwarder u rc)) = Some r
                \<and> (s, r) \<in> w_attached (fold whip_step evs (newWebRTCForwarder u rc)))"
proof -
  have inv: "whip_inv (fold whip_step evs (newWebRTCForwarder u rc))"
    by (rule whip_inv_fold [OF whip_inv_new])
  from whip_inv_running [OF inv assms] show ?thesis .
qed

theorem whip_IsRunning_invariant_witness:
  "whip_IsRunning (fold whip_step
       [EvStart 1, EvRun SetupOk, EvRun (InitOk 7), EvRun Tick, EvRun Tick]
       (newWebRTCForwarder ''https://sink/whip'' True))
   \<and> whipClient (fold whip_step
       [EvStart 1, EvRun SetupOk, EvRun (InitOk 7), EvRun Tick, EvRun Tick]
       (newWebRTCForwarder ''https://sink/whip'' True)) = Some 7
   \<and> (1, 0) \<in> w_attached (fold whip_step
       [EvStart 1, EvRun SetupOk, EvRun (InitOk 7), EvRun Tick, EvRun Tick]
       (newWebRTCForwarder ''https://sink/whip'' True))"
  using whip_IsRunning_invariant
    [of "[EvStart 1, EvRun SetupOk, EvRun (InitOk 7), EvRun Tick, EvRun Tick]"
      "''https://sink/whip''" True]
  by (simp add: whip_IsRunning_def whip_Start_def whip_run_def newWebRTCForwarder_def)

text \<open>
  The SRT forwarder's \<^verbatim>\<open>IsRunning\<close> is true from a successful \<^verbatim>\<open>Start\<close> until
  \<^verbatim>\<open>Stop\<close> completes, whatever its goroutine does in between.
\<close>

lemma srt_IsRunning_until_Stop:
  assumes "EvStopFinish \<notin> set evs"
  shows "srt_IsRunning (fold srt_step evs (snd (srt_Start (Some s) (newSRTForwarder u rc p))))"
proof -
  have "s_stream (snd (srt_Start (Some s) (newSRTForwarder u rc p))) \<noteq> None"
    by (simp add: srt_Start_def newSRTForwarder_def)
  from srt_fold_stream [OF assms this] show ?thesis by (simp add: srt_IsRunning_def)
qed

text \<open>
  Claim C3: whenever \<^verbatim>\<open>IsRunning\<close> returns true, a forwarder holds a non-nil
  connection and its reader is added to the source stream, also between \<^verbatim>\<open>Start\<close>
  returning and the dial completing and after a permanent failure. The SRT forwarder
  does not keep this. For an SRT forwarder without reconnect that is started with a
  stream, \<^verbatim>\<open>IsRunning\<close> is true right after \<^verbatim>\<open>Start\<close> returns, with no
  connection and no reader added; and it is still true after the dial has failed and
  the goroutine has returned for good (the wait group is at zero and the error is
  recorded), again with no connection and no reader added. The WHIP forwarder, after
  \<^verbatim>\<open>Start\<close> and after a failed initialisation without reconnect, reports false.
\<close>

theorem C3_srt_IsRunning_divergence:
  "srt_IsRunning (fold srt_step [EvStart 1] (newSRTForwarder ''srt://sink:8890'' False 1472))
   \<and> sconn (fold srt_step [EvStart 1] (newSRTForwarder ''srt://sink:8890'' False 1472)) = None
   \<and> s_attached (fold srt_step [EvStart 1] (newSRTForwarder ''srt://sink:8890'' False 1472)) = {}
   \<and> srt_IsRunning (fold srt_step [EvStart 1, EvRun DialFail, EvRun Tick]
        (newSRTForwarder ''srt://sink:8890'' False 1472))
   \<and> s_pc (fold srt_step [EvStart 1, EvRun DialFail, EvRun Tick]
        (newSRTForwarder ''srt://sink:8890'' False 1472)) = S_None
   \<and> s_wg (fold srt_step [EvStart 1, EvRun DialFail, EvRun Tick]
        (newSRTForwarder ''srt://sink:8890'' False 1472)) = 0
   \<and> s_lastError (fold srt_step [EvStart 1, EvRun DialFail, EvRun Tick]
        (newSRTForwarder ''srt://sink:8890'' False 1472)) = Some ErrConnect
   \<and> sconn (fold srt_step [EvStart 1, EvRun DialFail, EvRun Tick]
        (newSRTForwarder ''srt://sink:8890'' False 1472)) = None
   \<and> s_attached (fold srt_step [EvStart 1, EvRun DialFail, EvRun Tick]
        (newSRTForwarder ''srt://sink:8890'' False 1472)) = {}
   \<and> \<not> whip_IsRunning (fold whip_step [EvStart 1]
        (newWebRTCForwarder ''https://sink/whip'' False))
   \<and> \<not> whip_IsRunning (fold whip_step
        [EvStart 1, EvRun SetupOk, EvRun InitFail, EvRun Tick, EvRun Tick]
        (newWebRTCForwarder ''https://sink/whip'' False))
   \<and> w_pc (fold whip_step
        [EvStart 1, EvRun SetupOk, EvRun InitFail, EvRun Tick, EvRun Tick]
        (newWebRTCForwarder ''https://sink/whip'' False)) = W_None"
  by (simp add: srt_IsRunning_def srt_Start_def srt_run_def srt_exit_def
      newSRTForwarder_def whip_IsRunning_def whip_Start_def whip_run_def whip_exit_def
      newWebRTCForwarder_def)

section \<open>Manager.Start does not roll back\<close>








section \<open>The description of a transcoding output\<close>

text \<open>
  Claim C8: a transcoding output is constructed with the tentative description: for
  a video output one H.264 video media with the canned SPS and PPS followed by one
  Opus two-channel audio media, for an audio output the Opus audio media alone.
  \<^verbatim>\<open>outputProcessor\<close> replaces it by the medias parsed from the encoder's MPEG-TS
  output exactly when the reader initialises and the conversion returns at least
  one media and no error; otherwise (the child exits before a successful parse) the
  description stays as it was. The conversion routine is the host's: it is taken to
  return no medias together with an error.
\<close>

theorem C8_output_description:
  assumes "snd toStream \<noteq> None \<longrightarrow> fst toStream = []"
  shows "(out_Type config = ''video'' \<longrightarrow>
            (\<exists>out. NewOutput config True = Inr out \<and> Desc (o_stream out) =
              Some \<lparr> Medias =
                [\<lparr> media_Type = MediaTypeVideo,
                   media_Formats = [H264 96 cannedSPS cannedPPS 1] \<rparr>,
                 \<lparr> media_Type = MediaTypeAudio, media_Formats = [Opus 97 2] \<rparr>] \<rparr>))
       \<and> (out_Type config = ''audio'' \<longrightarrow>
            (\<exists>out. NewOutput config True = Inr out \<and> Desc (o_stream out) =
              Some \<lparr> Medias =
                [\<lparr> media_Type = MediaTypeAudio, media_Formats = [Opus 97 2] \<rparr>] \<rparr>))
       \<and> Desc (o_stream (outputProcessor initErr toStream out)) =
            (if initErr = None \<and> snd toStream = None \<and> fst toStream \<noteq> []
             then Some \<lparr> Medias = fst toStream \<rparr>
             else Desc (o_stream out))"
proof (intro conjI impI)
  show "Desc (o_stream (outputProcessor initErr toStream out)) =
            (if initErr = None \<and> snd toStream = None \<and> fst toStream \<noteq> []
             then Some \<lparr> Medias = fst toStream \<rparr>
             else Desc (o_stream out))"
    using assms
    by (cases toStream; cases initErr) (auto simp: outputProcessor_def)
qed (simp_all add: NewOutput_def createStreamDescription_def videoTrack_def audioTrack_def)

theorem C8_output_description_witness:
  "(\<exists>out. NewOutput out480 True = Inr out \<and> Desc (o_stream out) =
      Some \<lparr> Medias =
        [\<lparr> media_Type = MediaTypeVideo, media_Formats = [H264 96 cannedSPS cannedPPS 1] \<rparr>,
         \<lparr> media_Type = MediaTypeAudio, media_Formats = [Opus 97 2] \<rparr>] \<rparr>)
   \<and> Desc (o_stream (outputProcessor None
        ([\<lparr> media_Type = MediaTypeVideo, media_Formats = [H264 96 [0x67, 0x64] [0x68] 1] \<rparr>],
         None) (started_output out480)))
     = Some \<lparr> Medias =
         [\<lparr> media_Type = MediaTypeVideo, media_Formats = [H264 96 [0x67, 0x64] [0x68] 1] \<rparr>] \<rparr>
   \<and> Desc (o_stream (outputProcessor (Some EOF) ([], Some EOF) (started_output outAudio)))
     = Some \<lparr> Medias = [\<lparr> media_Type = MediaTypeAudio, media_Formats = [Opus 97 2] \<rparr>] \<rparr>"
  using C8_output_description [of
      "([\<lparr> media_Type = MediaTypeVideo, media_Formats = [H264 96 [0x67, 0x64] [0x68] 1] \<rparr>], None)"
      out480 None "started_output out480"]
    C8_output_description [of "([], Some EOF)" outAudio "Some EOF" "started_output outAudio"]
  by (simp add: out480_def outAudio_def started_output_def createStreamDescription_def
      audioTrack_def)

section \<open>SSRCs of the simulcast output\<close>

lemma write_packet_written:
  "written (snd (write_packet ty codec u pkt s)) = written s
   \<or> (\<exists>w. written (snd (write_packet ty codec u pkt s)) = written s @ [w] \<and> wr_pkt w = pkt)"
  by (auto simp: write_packet_def split: option.splits prod.splits)

lemma video_loop_written:
  "\<exists>ws. written (snd (video_loop info u pkts s)) = written s @ ws
        \<and> (\<forall>w\<in>set ws. SSRC (wr_pkt w) = li_SSRC info)"
proof (induction pkts arbitrary: s)
  case Nil
  show ?case by simp
next
  case (Cons p pkts)
  let ?pkt = "(clone p)\<lparr>SSRC := li_SSRC info\<rparr>"
  obtain e s' where w: "write_packet MediaTypeVideo is_H264 u ?pkt s = (e, s')"
    by (cases "write_packet MediaTypeVideo is_H264 u ?pkt s")
  from write_packet_written [of MediaTypeVideo is_H264 u ?pkt s] w
  obtain ws1 where ws1: "written s' = written s @ ws1" "\<forall>w\<in>set ws1. SSRC (wr_pkt w) = li_SSRC info"
    by (auto intro: that [of "[]"] that [of "[w]" for w])
  show ?case
  proof (cases e)
    case (Some err)
    then show ?thesis using w ws1 by (auto simp: Let_def)
  next
    case None
    from Cons.IH [of s'] obtain ws2 where
      ws2: "written (snd (video_loop info u pkts s')) = written s' @ ws2"
        "\<forall>w\<in>set ws2. SSRC (wr_pkt w) = li_SSRC info" by blast
    have a: "written (snd (video_loop info u (p # pkts) s)) = written s @ (ws1 @ ws2)"
      using w None ws1 ws2 by (simp add: Let_def)
    have b: "\<forall>w\<in>set (ws1 @ ws2). SSRC (wr_pkt w) = li_SSRC info"
      using ws1 ws2 by auto
    show ?thesis by (rule exI [of _ "ws1 @ ws2"]) (rule conjI [OF a b])
  qed
qed

lemma clone_id: "clone p = p"
  by (simp add: clone_def)

lemma write_packet_can:
  assumes "can_write ty codec s"
  shows "fst (write_packet ty codec u pkt s) = None"
    and "new_packets s (snd (write_packet ty codec u pkt s)) = [pkt]"
    and "can_write ty codec (snd (write_packet ty codec u pkt s))"
    and "\<exists>w. written (snd (write_packet ty codec u pkt s)) = written s @ [w] \<and> wr_pkt w = pkt"
proof -
  from assms obtain out d m f where
    h: "outputStream s = Some out" "Desc out = Some d"
       "find_media_format ty codec (Medias d) = (Some m, Some f)"
    unfolding can_write_def by blast
  have w: "write_packet ty codec u pkt s =
     (None, s\<lparr>written := written s @
        [\<lparr> wr_media = m, wr_format = f, wr_pkt = pkt,
           wr_ntp = NTP u, wr_pts = uint (Timestamp pkt) \<rparr>]\<rparr>)"
    using h by (simp add: write_packet_def)
  show "fst (write_packet ty codec u pkt s) = None" using w by simp
  show "new_packets s (snd (write_packet ty codec u pkt s)) = [pkt]"
    using w by (simp add: new_packets_def)
  show "can_write ty codec (snd (write_packet ty codec u pkt s))"
    using w h by (simp add: can_write_def)
  show "\<exists>w. written (snd (write_packet ty codec u pkt s)) = written s @ [w] \<and> wr_pkt w = pkt"
    using w by simp
qed

lemma write_packet_same:
  "outputStream (snd (write_packet ty codec u pkt s)) = outputStream s"
  by (simp add: write_packet_def split: option.splits prod.splits)

lemma write_packet_cannot:
  assumes "\<not> can_write ty codec s"
  shows "written (snd (write_packet ty codec u pkt s)) = written s"
    and "\<not> can_write ty codec (snd (write_packet ty codec u pkt s))"
proof -
  show "written (snd (write_packet ty codec u pkt s)) = written s"
  proof (cases "outputStream s")
    case None
    then show ?thesis by (simp add: write_packet_def)
  next
    case (Some out)
    show ?thesis
    proof (cases "Desc out")
      case None
      then show ?thesis using Some by (simp add: write_packet_def)
    next
      case (Some d)
      obtain a b where ab: "find_media_format ty codec (Medias d) = (a, b)"
        by (cases "find_media_format ty codec (Medias d)")
      have "a = None \<or> b = None"
        using assms \<open>outputStream s = Some out\<close> Some ab
        unfolding can_write_def by (cases a; cases b) auto
      then show ?thesis using \<open>outputStream s = Some out\<close> Some ab
        by (auto simp: write_packet_def split: option.splits)
    qed
  qed
  show "\<not> can_write ty codec (snd (write_packet ty codec u pkt s))"
    using assms unfolding can_write_def by (simp add: write_packet_same)
qed

lemma audio_loop_step:
  "fst (write_packet MediaTypeAudio is_Opus u (clone p) s) = None \<Longrightarrow>
   audio_loop u (p # pkts) s
     = audio_loop u pkts (snd (write_packet MediaTypeAudio is_Opus u (clone p) s))"
  by (cases "write_packet MediaTypeAudio is_Opus u (clone p) s") (simp add: Let_def)

lemma audio_loop_can:
  "can_write MediaTypeAudio is_Opus s \<Longrightarrow>
     \<exists>ws. written (snd (audio_loop u pkts s)) = written s @ ws \<and> map wr_pkt ws = pkts"
proof (induction pkts arbitrary: s)
  case Nil
  show ?case by simp
next
  case (Cons p pkts)
  let ?s' = "snd (write_packet MediaTypeAudio is_Opus u (clone p) s)"
  note W = write_packet_can [OF Cons.prems, of u "clone p"]
  from W(4) obtain w where w: "written ?s' = written s @ [w]" "wr_pkt w = clone p" by blast
  from Cons.IH [OF W(3)] obtain ws where
    ws: "written (snd (audio_loop u pkts ?s')) = written ?s' @ ws" "map wr_pkt ws = pkts"
    by blast
  have st: "audio_loop u (p # pkts) s = audio_loop u pkts ?s'"
    using W(1) by (rule audio_loop_step)
  have a: "written (snd (audio_loop u (p # pkts) s)) = written s @ (w # ws)"
    unfolding st ws(1) w(1) by simp
  have b: "map wr_pkt (w # ws) = p # pkts"
    unfolding list.map w(2) ws(2) by (simp add: clone_def)
  show ?case by (rule exI [of _ "w # ws"]) (rule conjI [OF a b])
qed

lemma audio_loop_cannot:
  "\<not> can_write MediaTypeAudio is_Opus s \<Longrightarrow>
     written (snd (audio_loop u pkts s)) = written s"
proof (induction pkts arbitrary: s)
  case Nil
  show ?case by simp
next
  case (Cons p pkts)
  let ?r = "write_packet MediaTypeAudio is_Opus u (clone p) s"
  note W = write_packet_cannot [OF Cons.prems, of u "clone p"]
  show ?case
  proof (cases "fst ?r")
    case None
    then have "audio_loop u (p # pkts) s = audio_loop u pkts (snd ?r)"
      by (cases ?r) (simp add: Let_def)
    then show ?thesis using Cons.IH [OF W(2)] W(1) by simp
  next
    case (Some e)
    then have "audio_loop u (p # pkts) s = (Some e, snd ?r)"
      by (cases ?r) (simp add: Let_def)
    then show ?thesis using W(1) by simp
  qed
qed

lemma onData_audio:
  "new_packets s (snd (onData AudioCallback u s)) = RTPPackets u
   \<or> new_packets s (snd (onData AudioCallback u s)) = []"
proof (cases "src_ctxDone s \<or> NilPayload u")
  case True
  then show ?thesis by (auto simp: onData_def new_packets_def)
next
  case False
  then have od: "onData AudioCallback u s = audio_loop u (RTPPackets u) s"
    by (simp add: onData_def)
  show ?thesis
  proof (cases "can_write MediaTypeAudio is_Opus s")
    case True
    from audio_loop_can [OF True, of u "RTPPackets u"] show ?thesis
      unfolding od new_packets_def by auto
  next
    case False
    from audio_loop_cannot [OF False, of u "RTPPackets u"] show ?thesis
      unfolding od new_packets_def by simp
  qed
qed

lemma onData_video:
  "\<forall>p\<in>set (new_packets s (snd (onData (VideoCallback info) u s))). SSRC p = li_SSRC info"
proof (cases "src_ctxDone s \<or> NilPayload u")
  case True
  then show ?thesis by (auto simp: onData_def new_packets_def)
next
  case False
  then have od: "onData (VideoCallback info) u s = video_loop info u (RTPPackets u) s"
    by (simp add: onData_def)
  from video_loop_written [of info u "RTPPackets u" s] show ?thesis
    unfolding od new_packets_def by auto
qed

lemma forwardInput_video:
  assumes "forwardInput input s = Registered m f cb" "in_Type input = ''video''"
  shows "\<exists>info. layerMapping s (in_Path input) = Some info \<and> cb = VideoCallback info"
proof -
  from assms(1) obtain strm reader where
    sr: "inputStreams s (in_Path input) = Some strm" "readers s (in_Path input) = Some reader"
    by (cases "inputStreams s (in_Path input)"; cases "readers s (in_Path input)")
       (simp_all add: forwardInput_def)
  from assms(1) sr obtain info where info: "layerMapping s (in_Path input) = Some info"
    by (cases "layerMapping s (in_Path input)") (simp_all add: forwardInput_def)
  have fv: "forwardVideo strm info = Registered m f cb"
    using assms sr info by (simp add: forwardInput_def)
  then have "cb = VideoCallback info"
    by (simp add: forwardVideo_def split: option.splits prod.splits)
  then show ?thesis using info by simp
qed

lemma forwardInput_audio:
  assumes "forwardInput input s = Registered m f cb" "in_Type input \<noteq> ''video''"
  shows "cb = AudioCallback"
proof -
  from assms(1) obtain strm reader where
    sr: "inputStreams s (in_Path input) = Some strm" "readers s (in_Path input) = Some reader"
    by (cases "inputStreams s (in_Path input)"; cases "readers s (in_Path input)")
       (simp_all add: forwardInput_def)
  from assms(1) sr obtain info where info: "layerMapping s (in_Path input) = Some info"
    by (cases "layerMapping s (in_Path input)") (simp_all add: forwardInput_def)
  have fv: "forwardAudio strm = Registered m f cb"
    using assms sr info by (simp add: forwardInput_def)
  then show "cb = AudioCallback"
    by (simp add: forwardAudio_def split: option.splits prod.splits)
qed

lemma connect_step_ok:
  assumes "env i = Attaches strm rnd" "stream_ready strm" "randUint32 rnd = Some ssrc"
  shows "connect_loop env i (c # cs) s =
     connect_loop env (Suc i) cs
       (s\<lparr>src_fresh := src_fresh s + 1,
           inputStreams := (inputStreams s)(in_Path c \<mapsto> strm),
           readers := (readers s)(in_Path c \<mapsto> src_fresh s),
           layerMapping := (layerMapping s)(in_Path c \<mapsto>
             \<lparr> li_Layer = in_Layer c, li_SSRC = ssrc, li_RID = in_Layer c,
               li_Resolution = in_Resolution c, li_Bitrate = in_Bitrate c \<rparr>)\<rparr>)"
  using assms by (simp add: Let_def)

lemma connect_step_fail:
  assumes "\<not> (\<exists>strm rnd ssrc. env i = Attaches strm rnd \<and> stream_ready strm \<and> randUint32 rnd = Some ssrc)"
  shows "fst (connect_loop env i (c # cs) s) \<noteq> None"
    and "layerMapping (snd (connect_loop env i (c # cs) s)) = layerMapping s"
proof -
  show "fst (connect_loop env i (c # cs) s) \<noteq> None"
  proof (cases "env i")
    case (Attaches strm rnd)
    then show ?thesis using assms
      by (cases "randUint32 rnd") (simp_all add: Let_def)
  qed simp_all
  show "layerMapping (snd (connect_loop env i (c # cs) s)) = layerMapping s"
  proof (cases "env i")
    case (Attaches strm rnd)
    then show ?thesis using assms
      by (cases "randUint32 rnd") (simp_all add: Let_def)
  qed simp_all
qed

declare connect_loop.simps [simp del]

lemma connect_loop_nil [simp]: "connect_loop env i [] s = (None, s)"
  by (simp add: connect_loop.simps)

lemma connect_loop_other:
  "p \<notin> in_Path ` set cs \<Longrightarrow> layerMapping (snd (connect_loop env i cs s)) p = layerMapping s p"
proof (induction cs arbitrary: i s)
  case Nil
  show ?case by simp
next
  case (Cons c cs)
  then have pc: "p \<noteq> in_Path c" and pn: "p \<notin> in_Path ` set cs" by auto
  show ?case
  proof (cases "\<exists>strm rnd ssrc. env i = Attaches strm rnd \<and> stream_ready strm \<and> randUint32 rnd = Some ssrc")
    case True
    then obtain strm rnd ssrc where
      e: "env i = Attaches strm rnd" "stream_ready strm" "randUint32 rnd = Some ssrc" by blast
    show ?thesis
      unfolding connect_step_ok [of env i strm rnd ssrc, OF e] using Cons.IH [OF pn] pc by simp
  next
    case False
    from connect_step_fail(2) [of env i, OF False] show ?thesis by simp
  qed
qed

lemma connect_loop_ssrc:
  assumes "fst (connect_loop env i cs s) = None" "distinct (map in_Path cs)" "j < length cs"
  shows "\<exists>strm rnd ssrc info. env (i + j) = Attaches strm rnd \<and> randUint32 rnd = Some ssrc
           \<and> layerMapping (snd (connect_loop env i cs s)) (in_Path (cs ! j)) = Some info
           \<and> li_SSRC info = ssrc"
  using assms
proof (induction cs arbitrary: i j s)
  case Nil
  then show ?case by simp
next
  case (Cons c cs)
  have "\<exists>strm rnd ssrc. env i = Attaches strm rnd \<and> stream_ready strm \<and> randUint32 rnd = Some ssrc"
    using connect_step_fail(1) [of env i c cs s] Cons.prems(1) by blast
  then obtain strm rnd ssrc where
    e: "env i = Attaches strm rnd" "stream_ready strm" "randUint32 rnd = Some ssrc" by blast
  let ?info = "\<lparr> li_Layer = in_Layer c, li_SSRC = ssrc, li_RID = in_Layer c,
                  li_Resolution = in_Resolution c, li_Bitrate = in_Bitrate c \<rparr>"
  let ?s2 = "s\<lparr>src_fresh := src_fresh s + 1,
           inputStreams := (inputStreams s)(in_Path c \<mapsto> strm),
           readers := (readers s)(in_Path c \<mapsto> src_fresh s),
           layerMapping := (layerMapping s)(in_Path c \<mapsto> ?info)\<rparr>"
  have st: "connect_loop env i (c # cs) s = connect_loop env (Suc i) cs ?s2"
    by (rule connect_step_ok [of env i strm rnd ssrc, OF e])
  show ?case
  proof (cases j)
    case 0
    have "in_Path c \<notin> in_Path ` set cs" using Cons.prems(2) by auto
    from connect_loop_other [OF this, of env "Suc i" ?s2]
    have "layerMapping (snd (connect_loop env i (c # cs) s)) (in_Path c) = Some ?info"
      using st by simp
    then show ?thesis using 0 e by simp
  next
    case (Suc j')
    have p1: "fst (connect_loop env (Suc i) cs ?s2) = None" using Cons.prems(1) st by simp
    have p2: "distinct (map in_Path cs)" using Cons.prems(2) by simp
    have p3: "j' < length cs" using Cons.prems(3) Suc by simp
    from Cons.IH [OF p1 p2 p3] show ?thesis using st Suc by simp
  qed
qed

text \<open>
  Claim C2, as stated, fails for audio-typed layers: \<^verbatim>\<open>forwardAudio\<close> writes the
  cloned packet with the upstream SSRC. Here the layer attached with the allocated
  SSRC \<open>0x11223344\<close> forwards a packet that carries the upstream SSRC \<open>0xCAFEBABE\<close>.
\<close>

theorem C2_audio_counterexample:
  "map_option li_SSRC (layerMapping audio_attached (in_Path audioInput)) = Some 0x11223344
   \<and> forwardInput audioInput audio_attached = Registered audioTrack (Opus 97 2) AudioCallback
   \<and> map SSRC (new_packets audio_attached
        (snd (onData AudioCallback \<lparr> RTPPackets = [upstreamPkt], NTP = 0, NilPayload = False \<rparr>
                audio_attached))) = [0xCAFEBABE]"
  by (simp add: audio_attached_def connectInputs_def connect_loop.simps New_def audioInput_def
      opusStream_def stream_ready_def randUint32_def Let_def forwardInput_def forwardAudio_def
      find_media_format_def audioTrack_def onData_def write_packet_def new_packets_def
      clone_def upstreamPkt_def)

text \<open>
  Claim C2, amended. For every video-typed input layer, every RTP packet that the
  layer's callback writes to the simulcast output stream carries the SSRC recorded
  for the layer in the layer mapping; for an input layer of any other type (audio),
  the packets written are the upstream packets unchanged, upstream SSRC included (all
  of the unit's packets, or none). The recorded SSRC is the 32-bit value drawn by
  \<^verbatim>\<open>randUint32\<close> when the layer was attached, for inputs with distinct paths.
\<close>

theorem C2_simulcast_ssrc:
  "(forwardInput input s = Registered m f cb \<and> in_Type input = ''video'' \<longrightarrow>
      (\<exists>info. layerMapping s (in_Path input) = Some info
         \<and> (\<forall>p \<in> set (new_packets s (snd (onData cb u s))). SSRC p = li_SSRC info)))
   \<and> (forwardInput input s = Registered m f cb \<and> in_Type input \<noteq> ''video'' \<longrightarrow>
        (new_packets s (snd (onData cb u s)) = RTPPackets u
         \<or> new_packets s (snd (onData cb u s)) = []))
   \<and> (fst (connectInputs env s0) = None \<and> distinct (map in_Path (src_Inputs s0))
        \<and> j < length (src_Inputs s0) \<longrightarrow>
      (\<exists>strm rnd ssrc info. env j = Attaches strm rnd \<and> randUint32 rnd = Some ssrc
         \<and> layerMapping (snd (connectInputs env s0)) (in_Path (src_Inputs s0 ! j)) = Some info
         \<and> li_SSRC info = ssrc))"
proof (intro conjI impI)
  assume a: "forwardInput input s = Registered m f cb \<and> in_Type input = ''video''"
  then obtain info where i: "layerMapping s (in_Path input) = Some info" "cb = VideoCallback info"
    using forwardInput_video by blast
  show "\<exists>info. layerMapping s (in_Path input) = Some info
         \<and> (\<forall>p \<in> set (new_packets s (snd (onData cb u s))). SSRC p = li_SSRC info)"
    using i onData_video [of s info u] by simp
next
  assume a: "forwardInput input s = Registered m f cb \<and> in_Type input \<noteq> ''video''"
  then have "cb = AudioCallback" using forwardInput_audio by blast
  then show "new_packets s (snd (onData cb u s)) = RTPPackets u
         \<or> new_packets s (snd (onData cb u s)) = []"
    using onData_audio [of s u] by simp
next
  assume a: "fst (connectInputs env s0) = None \<and> distinct (map in_Path (src_Inputs s0))
        \<and> j < length (src_Inputs s0)"
  then have a1: "fst (connect_loop env 0 (src_Inputs s0) s0) = None"
    and a2: "distinct (map in_Path (src_Inputs s0))" and a3: "j < length (src_Inputs s0)"
    by (simp_all add: connectInputs_def)
  from connect_loop_ssrc [OF a1 a2 a3]
  show "\<exists>strm rnd ssrc info. env j = Attaches strm rnd \<and> randUint32 rnd = Some ssrc
         \<and> layerMapping (snd (connectInputs env s0)) (in_Path (src_Inputs s0 ! j)) = Some info
         \<and> li_SSRC info = ssrc"
    by (simp add: connectInputs_def)
qed

theorem C2_simulcast_ssrc_witness:
  "forwardInput videoInput video_attached
     = Registered videoTrack (H264 96 cannedSPS cannedPPS 1)
         (VideoCallback \<lparr> li_Layer = ''high'', li_SSRC = 0x11223344, li_RID = ''high'',
                          li_Resolution = ''1920x1080'', li_Bitrate = 2000000 \<rparr>)
   \<and> map SSRC (new_packets video_attached
        (snd (onData (VideoCallback \<lparr> li_Layer = ''high'', li_SSRC = 0x11223344,
                         li_RID = ''high'', li_Resolution = ''1920x1080'',
                         li_Bitrate = 2000000 \<rparr>)
                \<lparr> RTPPackets = [upstreamPkt], NTP = 0, NilPayload = False \<rparr>
                video_attached))) = [0x11223344]
   \<and> new_packets audio_attached
        (snd (onData AudioCallback \<lparr> RTPPackets = [upstreamPkt], NTP = 0, NilPayload = False \<rparr>
                audio_attached)) = [upstreamPkt]
   \<and> map_option li_SSRC (layerMapping
        (snd (connectInputs (\<lambda>i. Attaches h264Stream (Some (0x11, 0x22, 0x33, 0x44)))
               (New [videoInput]))) ''live/h'') = Some 0x11223344"
  using C2_simulcast_ssrc [of videoInput video_attached videoTrack "H264 96 cannedSPS cannedPPS 1"
      "VideoCallback \<lparr> li_Layer = ''high'', li_SSRC = 0x11223344, li_RID = ''high'',
                          li_Resolution = ''1920x1080'', li_Bitrate = 2000000 \<rparr>"
      "\<lparr> RTPPackets = [upstreamPkt], NTP = 0, NilPayload = False \<rparr>"
      "\<lambda>i. Attaches h264Stream (Some (0x11, 0x22, 0x33, 0x44))" "New [videoInput]" 0]
  by (simp add: video_attached_def audio_attached_def connectInputs_def connect_loop.simps
      New_def videoInput_def audioInput_def
      h264Stream_def opusStream_def stream_ready_def randUint32_def Let_def forwardInput_def
      forwardVideo_def find_media_format_def videoTrack_def audioTrack_def onData_def
      write_packet_def new_packets_def clone_def upstreamPkt_def)

section \<open>Trickle ICE in the WHEP reader\<close>


lemma queue_before_url:
  "state r = running \<Longrightarrow> sessionUrl r = None \<Longrightarrow>
     candidates_arrive cs r = r\<lparr>queuedCandidates := queuedCandidates r @ cs\<rparr>"
  unfolding candidates_arrive_def
proof (induction cs arbitrary: r)
  case Nil
  show ?case by simp
next
  case (Cons c cs)
  let ?r1 = "r\<lparr>queuedCandidates := queuedCandidates r @ [c]\<rparr>"
  have 1: "onLocalCandidate (Some c) r = ?r1"
    using Cons.prems by (simp add: onLocalCandidate_def)
  have "fold (\<lambda>c. onLocalCandidate (Some c)) cs ?r1
          = ?r1\<lparr>queuedCandidates := queuedCandidates ?r1 @ cs\<rparr>"
    using Cons.prems by (intro Cons.IH) simp_all
  then show ?case using 1 by simp
qed

lemma each_after_url:
  "state r = running \<Longrightarrow> sessionUrl r = Some url \<Longrightarrow>
     candidates_arrive cs r = r\<lparr>requests := requests r @ map (\<lambda>c. PATCH url [c]) cs\<rparr>"
  unfolding candidates_arrive_def
proof (induction cs arbitrary: r)
  case Nil
  show ?case by simp
next
  case (Cons c cs)
  let ?r1 = "r\<lparr>requests := requests r @ [PATCH url [c]]\<rparr>"
  have 1: "onLocalCandidate (Some c) r = ?r1"
    using Cons.prems by (simp add: onLocalCandidate_def sendLocalCandidates_def)
  have "fold (\<lambda>c. onLocalCandidate (Some c)) cs ?r1
          = ?r1\<lparr>requests := requests ?r1 @ map (\<lambda>c. PATCH url [c]) cs\<rparr>"
    using Cons.prems by (intro Cons.IH) simp_all
  then show ?case using 1 by simp
qed

lemma pk_flush:
  "pk_sendOffer_then 201 url r =
     r\<lparr>sessionUrl := Some url, queuedCandidates := [],
       requests := requests r @ (if queuedCandidates r = [] then []
                                 else [PATCH url (queuedCandidates r)])\<rparr>"
  by (simp add: pk_sendOffer_then_def sendLocalCandidates_def Let_def)

text \<open>
  pk/reader.js does what claim C5 says: the candidates that arrive before the 201
  response are queued, the response flushes them with one PATCH (none when the queue
  is empty), every later candidate is its own PATCH, and a failed PATCH only logs a
  warning.
\<close>

theorem pk_reader_trickle:
  assumes "state r = running" "sessionUrl r = None" "queuedCandidates r = []"
  shows "candidates_arrive cs2 (pk_sendOffer_then 201 url (candidates_arrive cs1 r))
     = r\<lparr>sessionUrl := Some url,
         requests := requests r @ (if cs1 = [] then [] else [PATCH url cs1])
                                @ map (\<lambda>c. PATCH url [c]) cs2\<rparr>"
proof -
  have 1: "candidates_arrive cs1 r = r\<lparr>queuedCandidates := cs1\<rparr>"
    using queue_before_url [OF assms(1,2)] assms(3) by simp
  let ?r2 = "pk_sendOffer_then 201 url (r\<lparr>queuedCandidates := cs1\<rparr>)"
  have 2: "?r2 = r\<lparr>sessionUrl := Some url, queuedCandidates := [],
       requests := requests r @ (if cs1 = [] then [] else [PATCH url cs1])\<rparr>"
    by (simp add: pk_flush)
  have 3: "state ?r2 = running" "sessionUrl ?r2 = Some url" using assms 2 by simp_all
  show ?thesis unfolding 1 each_after_url [OF 3] using 2 assms(3) by simp
qed

lemma pk_patch_nonfatal:
  "pk_patch_catch err r = r\<lparr>warnings := warnings r @ [''Candidate patch failed:'' @ err]\<rparr>"
  by (simp add: pk_patch_catch_def)

text \<open>
  Claim C5 fails for whep/reader.js: the two candidates queued before the 201 response
  are not sent when it arrives (and stay queued), where pk/reader.js sends one PATCH
  with both; and a failed PATCH of a later candidate puts the reader into
  \<open>restarting\<close>, where pk/reader.js stays \<open>running\<close>.
\<close>

theorem C5_whep_reader_divergence:
  "requests (whep_sendOffer_then 201 ''http://h/live/x/whep/s1'' (candidates_arrive [cand1, cand2] offering)) = []
   \<and> queuedCandidates (whep_sendOffer_then 201 ''http://h/live/x/whep/s1'' (candidates_arrive [cand1, cand2] offering)) = [cand1, cand2]
   \<and> requests (pk_sendOffer_then 201 ''http://h/live/x/whep/s1'' (candidates_arrive [cand1, cand2] offering)) = [PATCH ''http://h/live/x/whep/s1'' [cand1, cand2]]
   \<and> state (whep_patch_catch ''TypeError: Failed to fetch''
        (candidates_arrive [cand1] (whep_sendOffer_then 201 ''http://h/live/x/whep/s1'' offering))) = restarting
   \<and> state (pk_patch_catch ''TypeError: Failed to fetch''
        (candidates_arrive [cand1] (pk_sendOffer_then 201 ''http://h/live/x/whep/s1'' offering))) = running"
  by (simp add: whep_sendOffer_then_def pk_sendOffer_then_def candidates_arrive_def
      onLocalCandidate_def offering_def sendLocalCandidates_def whep_patch_catch_def
      whep_handleError_def pk_patch_catch_def)


section \<open>Level switches of the adaptive player\<close>

lemma keeps_refl: "keeps_readers p p"
  by (simp add: keeps_readers_def)

lemma keeps_fields:
  "currentReader r = currentReader p \<Longrightarrow> heap r = heap p \<Longrightarrow> keeps_readers p r"
  by (simp add: keeps_readers_def)

lemma keeps_via:
  "currentReader q = currentReader p \<Longrightarrow> heap q = heap p \<Longrightarrow> keeps_readers q r
     \<Longrightarrow> keeps_readers p r"
  by (simp add: keeps_readers_def)

lemma keeps_then:
  "keeps_readers p q \<Longrightarrow> currentReader r = currentReader q \<Longrightarrow> heap r = heap q
     \<Longrightarrow> keeps_readers p r"
  by (simp add: keeps_readers_def)

lemma keeps_length: "keeps_readers p p' \<Longrightarrow> length (heap p) \<le> length (heap p')"
proof -
  assume "keeps_readers p p'"
  then have "take (length (heap p)) (heap p') = heap p" by (simp add: keeps_readers_def)
  then have "length (take (length (heap p)) (heap p')) = length (heap p)" by simp
  then show ?thesis by simp
qed

lemma keeps_append:
  assumes "keeps_readers p p'"
  shows "heap p' = heap p @ drop (length (heap p)) (heap p')"
proof -
  have "take (length (heap p)) (heap p') = heap p" using assms by (simp add: keeps_readers_def)
  then show ?thesis using append_take_drop_id [of "length (heap p)" "heap p'"] by simp
qed

lemma keeps_nth:
  assumes "keeps_readers p p'" "i < length (heap p)"
  shows "heap p' ! i = heap p ! i"
proof -
  have "heap p' = heap p @ drop (length (heap p)) (heap p')" by (rule keeps_append [OF assms(1)])
  then have "heap p' ! i = (heap p @ drop (length (heap p)) (heap p')) ! i" by simp
  then show ?thesis using assms(2) by (simp add: nth_append)
qed

lemma keeps_trans:
  assumes "keeps_readers p q" "keeps_readers q r"
  shows "keeps_readers p r"
proof -
  let ?n = "length (heap p)" and ?m = "length (heap q)"
  have le: "?n \<le> ?m" by (rule keeps_length [OF assms(1)])
  have q: "heap q = heap p @ drop ?n (heap q)" by (rule keeps_append [OF assms(1)])
  have r: "heap r = heap q @ drop ?m (heap r)" by (rule keeps_append [OF assms(2)])
  have r2: "heap r = heap p @ (drop ?n (heap q) @ drop ?m (heap r))"
    using q r by (metis append.assoc)
  have t: "take ?n (heap r) = heap p"
  proof -
    have "take ?n (heap r) = take ?n (heap p @ (drop ?n (heap q) @ drop ?m (heap r)))"
      using r2 by simp
    then show ?thesis by simp
  qed
  have d: "drop ?n (heap r) = drop ?n (heap q) @ drop ?m (heap r)"
  proof -
    have "drop ?n (heap r) = drop ?n (heap p @ (drop ?n (heap q) @ drop ?m (heap r)))"
      using r2 by simp
    then show ?thesis by simp
  qed
  show ?thesis
    using assms t d by (simp add: keeps_readers_def)
qed

lemma loadLevel_heap:
  "heap (loadLevel i p) = heap p
   \<or> (\<exists>ro. heap (loadLevel i p) = heap p @ [ro] \<and> \<not> ro_closed ro \<and> \<not> ro_trackHandled ro)"
  by (simp add: loadLevel_def Let_def)

lemma loadLevel_keeps:
  "currentReader (loadLevel i p) = currentReader p"
  "failureCounts (loadLevel i p) = failureCounts p"
  "penaltyBox (loadLevel i p) = penaltyBox p"
  by (simp_all add: loadLevel_def Let_def)

lemma keeps_loadLevel: "keeps_readers p (loadLevel i p)"
  using loadLevel_heap [of i p] by (auto simp: keeps_readers_def loadLevel_keeps)

lemma keeps_onError: "keeps_readers p (onError rid now p)"
  by (rule keeps_fields) (simp_all add: onError_def penalizeLevel_def Let_def)

lemma keeps_manualSwitch: "keeps_readers p (manualSwitch levelId p)"
proof (cases "levelId = ''auto''")
  case True
  then show ?thesis by (simp add: manualSwitch_def keeps_fields)
next
  case False
  let ?idx = "findIndex (\<lambda>l. sv_id (lv_variant l) = levelId) (levels p)"
  let ?p2 = "p\<lparr>isAuto := False, failureCounts := (failureCounts p)(?idx \<mapsto> 0),
              penaltyBox := (penaltyBox p)(?idx := None), activeLevelUsingFallback := False\<rparr>"
  show ?thesis
  proof (cases "?idx = -1")
    case True
    then show ?thesis using False by (simp add: manualSwitch_def Let_def keeps_fields)
  next
    case idx: False
    have e: "manualSwitch levelId p = loadLevel ?idx ?p2"
      using False idx by (simp add: manualSwitch_def Let_def)
    have "keeps_readers p (loadLevel ?idx ?p2)"
      by (rule keeps_via [OF _ _ keeps_loadLevel]) simp_all
    then show ?thesis using e by simp
  qed
qed

lemma keeps_fire_timer: "keeps_readers p (fire_timer k p)"
proof (cases "k \<ge> length (timers p)")
  case True
  then show ?thesis by (simp add: fire_timer_def keeps_refl)
next
  case False
  let ?p1 = "p\<lparr>timers := take k (timers p) @ drop (Suc k) (timers p)\<rparr>"
  show ?thesis
  proof (cases "snd (timers p ! k)")
    case (LoadLevel i)
    then have e: "fire_timer k p = loadLevel i ?p1"
      using False by (simp add: fire_timer_def Let_def)
    have "keeps_readers p (loadLevel i ?p1)"
      by (rule keeps_via [OF _ _ keeps_loadLevel]) simp_all
    then show ?thesis using e by simp
  next
    case LoadLastSuccessful
    then have e: "fire_timer k p = loadLevel (lastSuccessfulLevelIdx ?p1) ?p1"
      using False by (simp add: fire_timer_def Let_def)
    have "keeps_readers p (loadLevel (lastSuccessfulLevelIdx ?p1) ?p1)"
      by (rule keeps_via [OF _ _ keeps_loadLevel]) simp_all
    then show ?thesis using e by simp
  qed
qed

lemma keeps_statsTick: "keeps_readers p (snd (statsTick hasPc p))"
  by (rule keeps_fields) (simp_all add: statsTick_def Let_def)

lemma keeps_isLevelBanned: "keeps_readers p (snd (isLevelBanned i now p))"
  by (rule keeps_fields) (simp_all add: isLevelBanned_def split: option.split)

lemma keeps_down: "keeps_readers p (snd (decideQuality_down t c p))"
proof -
  let ?i = "currentLevelIdx p + 1"
  have a: "keeps_readers p ((loadLevel ?i (p\<lparr>activeLevelUsingFallback := False\<rparr>))
                            \<lparr>badConditionCount := 0\<rparr>)"
    by (rule keeps_then [OF keeps_via [OF _ _ keeps_loadLevel]]) simp_all
  have b: "keeps_readers p (loadLevel ?i (p\<lparr>badConditionCount := badConditionCount p + 1,
              activeLevelUsingFallback := False\<rparr>))"
    by (rule keeps_via [OF _ _ keeps_loadLevel]) simp_all
  show ?thesis
    using a b by (simp add: decideQuality_down_def Let_def keeps_fields)
qed

lemma keeps_up: "keeps_readers p (decideQuality_up m a now p)"
proof (cases "currentLevelIdx p > 0")
  case False
  then show ?thesis by (simp add: decideQuality_up_def keeps_refl)
next
  case True
  let ?t = "currentLevelIdx p - 1"
  obtain b p1 where ib: "isLevelBanned ?t now p = (b, p1)" by (cases "isLevelBanned ?t now p")
  have k1: "keeps_readers p p1" using keeps_isLevelBanned [of p ?t now] ib by simp
  have c: "keeps_readers p ((loadLevel ?t (p1\<lparr>stableCount := stableCount p1 + 1,
               activeLevelUsingFallback := False\<rparr>))\<lparr>stableCount := 0\<rparr>)"
  proof -
    have "keeps_readers p1 ((loadLevel ?t (p1\<lparr>stableCount := stableCount p1 + 1,
               activeLevelUsingFallback := False\<rparr>))\<lparr>stableCount := 0\<rparr>)"
      by (rule keeps_then [OF keeps_via [OF _ _ keeps_loadLevel]]) simp_all
    then show ?thesis using k1 by (rule keeps_trans [rotated])
  qed
  have d: "keeps_readers p (p1\<lparr>stableCount := 0\<rparr>)"
    by (rule keeps_then [OF k1]) simp_all
  have e: "keeps_readers p (p1\<lparr>stableCount := stableCount p1 + 1\<rparr>)"
    by (rule keeps_then [OF k1]) simp_all
  show ?thesis
    using True ib c d e by (cases b) (simp_all add: decideQuality_up_def Let_def)
qed

lemma keeps_decideQuality: "keeps_readers p (decideQuality m now now' p)"
proof (cases "currentLevelIdx p < 0 \<or> currentLevelIdx p \<ge> int (length (levels p))")
  case True
  then show ?thesis by (simp add: decideQuality_def keeps_refl)
next
  case False
  show ?thesis
  proof -
    have "\<And>t c a. keeps_readers p
            (case decideQuality_down t c p of
               (True, p1) \<Rightarrow> p1 | (False, p1) \<Rightarrow> decideQuality_up m a now' p1)"
    proof -
      fix t c a
      obtain b p1 where dn: "decideQuality_down t c p = (b, p1)"
        by (cases "decideQuality_down t c p")
      have k1: "keeps_readers p p1" using keeps_down [of p t c] dn by simp
      have k2: "keeps_readers p (decideQuality_up m a now' p1)"
        by (rule keeps_trans [OF k1 keeps_up])
      show "keeps_readers p
            (case decideQuality_down t c p of
               (True, p1) \<Rightarrow> p1 | (False, p1) \<Rightarrow> decideQuality_up m a now' p1)"
        using dn k1 k2 by (cases b) simp_all
    qed
    then show ?thesis using False by (simp add: decideQuality_def Let_def)
  qed
qed

lemma keeps_onStats: "keeps_readers p (onStats m now now' p)"
  by (simp add: onStats_def keeps_decideQuality keeps_refl)

lemma onTrack_again:
  "rid \<ge> length (heap p) \<or> ro_trackHandled (heap p ! rid) \<Longrightarrow> onTrack rid now p = p"
  by (auto simp: onTrack_def)

lemma keeps_step:
  assumes "no_first_track p e"
  shows "keeps_readers p (player_step e p)"
proof (cases e)
  case (EvLoadLevel i)
  then show ?thesis by (simp add: keeps_loadLevel)
next
  case (EvError rid now)
  then show ?thesis by (simp add: keeps_onError)
next
  case (EvTrack rid now)
  then have "onTrack rid now p = p" using assms by (simp add: onTrack_again)
  then show ?thesis using EvTrack by (simp add: keeps_refl)
next
  case (EvManualSwitch levelId)
  then show ?thesis by (simp add: keeps_manualSwitch)
next
  case (EvTimer k)
  then show ?thesis by (simp add: keeps_fire_timer)
next
  case (EvTick hasPc)
  then show ?thesis by (simp add: keeps_statsTick)
next
  case (EvStats m now now')
  then show ?thesis by (simp add: keeps_onStats)
next
  case EvDestroy
  then show ?thesis using assms by simp
qed

lemma no_first_track_mono:
  assumes "keeps_readers p p'" "no_first_track p e"
  shows "no_first_track p' e"
proof (cases e)
  case (EvTrack rid now)
  then have r: "rid < length (heap p)" and h: "ro_trackHandled (heap p ! rid)"
    using assms(2) by simp_all
  have "rid < length (heap p')" using r keeps_length [OF assms(1)] by simp
  moreover have "heap p' ! rid = heap p ! rid" by (rule keeps_nth [OF assms(1) r])
  ultimately show ?thesis using EvTrack h by simp
next
  case EvDestroy
  then show ?thesis using assms(2) by simp
qed simp_all

lemma keeps_fold:
  "list_all (no_first_track p) evs \<Longrightarrow> keeps_readers p (fold player_step evs p)"
proof (induction evs arbitrary: p)
  case Nil
  then show ?case by (simp add: keeps_refl)
next
  case (Cons e evs)
  have e: "no_first_track p e" and es: "list_all (no_first_track p) evs"
    using Cons.prems by simp_all
  have k1: "keeps_readers p (player_step e p)" by (rule keeps_step [OF e])
  have "list_all (no_first_track (player_step e p)) evs"
    using es no_first_track_mono [OF k1] by (simp add: list_all_iff)
  then have k2: "keeps_readers (player_step e p) (fold player_step evs (player_step e p))"
    by (rule Cons.IH)
  show ?case using keeps_trans [OF k1 k2] by simp
qed

lemma keeps_readers_ok:
  assumes "keeps_readers p p'" "readers_ok p"
  shows "readers_ok p'"
proof -
  have h: "heap p' = heap p @ drop (length (heap p)) (heap p')" by (rule keeps_append [OF assms(1)])
  have new: "list_all (\<lambda>ro. \<not> ro_closed ro \<and> \<not> ro_trackHandled ro) (drop (length (heap p)) (heap p'))"
    using assms(1) by (simp add: keeps_readers_def)
  then have new': "list_all (\<lambda>ro. ro_closed ro \<longrightarrow> ro_trackHandled ro) (drop (length (heap p)) (heap p'))"
    by (simp add: list_all_iff)
  have old: "list_all (\<lambda>ro. ro_closed ro \<longrightarrow> ro_trackHandled ro) (heap p)"
    using assms(2) by (simp add: readers_ok_def)
  have "list_all (\<lambda>ro. ro_closed ro \<longrightarrow> ro_trackHandled ro)
          (heap p @ drop (length (heap p)) (heap p'))"
    using old new' by simp
  then have a: "list_all (\<lambda>ro. ro_closed ro \<longrightarrow> ro_trackHandled ro) (heap p')"
    using h by simp
  have b: "case currentReader p' of None \<Rightarrow> True
           | Some r \<Rightarrow> r < length (heap p') \<and> ro_trackHandled (heap p' ! r)"
  proof (cases "currentReader p")
    case None
    then show ?thesis using assms(1) by (simp add: keeps_readers_def)
  next
    case (Some r)
    then have r: "r < length (heap p)" and t: "ro_trackHandled (heap p ! r)"
      using assms(2) by (simp_all add: readers_ok_def)
    have "r < length (heap p')" using r keeps_length [OF assms(1)] by simp
    moreover have "heap p' ! r = heap p ! r" by (rule keeps_nth [OF assms(1) r])
    moreover have "currentReader p' = Some r" using Some assms(1) by (simp add: keeps_readers_def)
    ultimately show ?thesis using t by simp
  qed
  show ?thesis using a b by (simp add: readers_ok_def)
qed

lemma keeps_attached:
  assumes "keeps_readers p p'" "attached p"
  shows "attached p'"
proof -
  from assms(2) obtain r where c: "currentReader p = Some r" and r: "r < length (heap p)"
    and o: "\<not> ro_closed (heap p ! r)"
    by (auto simp: attached_def split: option.splits)
  have "r < length (heap p')" using r keeps_length [OF assms(1)] by simp
  moreover have "heap p' ! r = heap p ! r" by (rule keeps_nth [OF assms(1) r])
  moreover have "currentReader p' = Some r" using c assms(1) by (simp add: keeps_readers_def)
  ultimately show ?thesis using o by (simp add: attached_def)
qed

lemma close_reader_length [simp]: "length (close_reader i h) = length h"
  by (simp add: close_reader_def)

lemma close_reader_nth:
  "j < length h \<Longrightarrow> close_reader i h ! j = (if j = i then (h ! j)\<lparr>ro_closed := True\<rparr> else h ! j)"
  by (simp add: close_reader_def nth_list_update)

lemma onTrack_first_heap:
  assumes "rid < length (heap p)" "\<not> ro_trackHandled (heap p ! rid)"
  shows "length (heap (onTrack rid now p)) = length (heap p)"
    and "currentReader (onTrack rid now p) = Some rid"
    and "\<And>j. j < length (heap p) \<Longrightarrow>
           heap (onTrack rid now p) ! j =
             (if j = rid then (heap p ! j)\<lparr>ro_trackHandled := True\<rparr>
              else if currentReader p = Some j then (heap p ! j)\<lparr>ro_closed := True\<rparr>
              else heap p ! j)"
  using assms
  by (auto simp: onTrack_def Let_def close_reader_nth nth_list_update split: option.splits)

lemma readers_ok_onTrack:
  assumes "readers_ok p"
  shows "readers_ok (onTrack rid now p)"
proof (cases "rid \<ge> length (heap p) \<or> ro_trackHandled (heap p ! rid)")
  case True
  then show ?thesis using assms onTrack_again [of p rid now] by simp
next
  case False
  then have r: "rid < length (heap p)" and u: "\<not> ro_trackHandled (heap p ! rid)" by simp_all
  note H = onTrack_first_heap [OF r u, where now = now]
  have all: "\<forall>j<length (heap p). ro_closed (heap p ! j) \<longrightarrow> ro_trackHandled (heap p ! j)"
    using assms by (simp add: readers_ok_def list_all_length)
  have cur: "\<And>c. currentReader p = Some c \<Longrightarrow> c < length (heap p) \<and> ro_trackHandled (heap p ! c)"
    using assms by (simp add: readers_ok_def)
  have a: "\<forall>j<length (heap (onTrack rid now p)).
             ro_closed (heap (onTrack rid now p) ! j) \<longrightarrow> ro_trackHandled (heap (onTrack rid now p) ! j)"
  proof (intro allI impI)
    fix j assume j: "j < length (heap (onTrack rid now p))"
      and cl: "ro_closed (heap (onTrack rid now p) ! j)"
    have j': "j < length (heap p)" using j H(1) by simp
    show "ro_trackHandled (heap (onTrack rid now p) ! j)"
      using H(3) [OF j'] cl all j' cur [of j] by (auto split: if_splits)
  qed
  have b: "rid < length (heap (onTrack rid now p))
           \<and> ro_trackHandled (heap (onTrack rid now p) ! rid)"
    using H(1) H(3) [OF r] r by simp
  show ?thesis using a b H(2) by (simp add: readers_ok_def list_all_length)
qed

lemma attached_onTrack:
  assumes "readers_ok p" "attached p"
  shows "attached (onTrack rid now p)"
proof (cases "rid \<ge> length (heap p) \<or> ro_trackHandled (heap p ! rid)")
  case True
  then show ?thesis using assms onTrack_again [of p rid now] by simp
next
  case False
  then have r: "rid < length (heap p)" and u: "\<not> ro_trackHandled (heap p ! rid)" by simp_all
  note H = onTrack_first_heap [OF r u, where now = now]
  have "\<not> ro_closed (heap p ! rid)"
    using assms(1) r u by (auto simp: readers_ok_def list_all_length)
  then have "\<not> ro_closed (heap (onTrack rid now p) ! rid)" using H(3) [OF r] by simp
  then show ?thesis using H(1,2) r by (simp add: attached_def)
qed

lemma destroy_heap:
  "currentReader (destroy p) = currentReader p"
  "length (heap (destroy p)) = length (heap p)"
  "j < length (heap p) \<Longrightarrow>
     heap (destroy p) ! j =
       (if currentReader p = Some j then (heap p ! j)\<lparr>ro_closed := True\<rparr> else heap p ! j)"
  by (auto simp: destroy_def close_reader_nth split: option.splits)

lemma readers_ok_destroy:
  assumes "readers_ok p"
  shows "readers_ok (destroy p)"
proof -
  have all: "\<forall>j<length (heap p). ro_closed (heap p ! j) \<longrightarrow> ro_trackHandled (heap p ! j)"
    using assms by (simp add: readers_ok_def list_all_length)
  have cur: "\<And>c. currentReader p = Some c \<Longrightarrow> c < length (heap p) \<and> ro_trackHandled (heap p ! c)"
    using assms by (simp add: readers_ok_def)
  have a: "\<forall>j<length (heap (destroy p)).
             ro_closed (heap (destroy p) ! j) \<longrightarrow> ro_trackHandled (heap (destroy p) ! j)"
  proof (intro allI impI)
    fix j assume j: "j < length (heap (destroy p))" and cl: "ro_closed (heap (destroy p) ! j)"
    have j': "j < length (heap p)" using j by (simp add: destroy_heap)
    show "ro_trackHandled (heap (destroy p) ! j)"
      using destroy_heap(3) [OF j'] cl all j' cur [of j] by (auto split: if_splits)
  qed
  have b: "case currentReader (destroy p) of None \<Rightarrow> True
           | Some r \<Rightarrow> r < length (heap (destroy p)) \<and> ro_trackHandled (heap (destroy p) ! r)"
  proof (cases "currentReader p")
    case None
    then show ?thesis by (simp add: destroy_heap)
  next
    case (Some c)
    then have "c < length (heap p)" "ro_trackHandled (heap p ! c)" using cur by simp_all
    then show ?thesis using Some destroy_heap(3) [of c p] by (simp add: destroy_heap)
  qed
  show ?thesis using a b by (simp add: readers_ok_def list_all_length)
qed

lemma no_first_track_other:
  "e \<noteq> EvDestroy \<Longrightarrow> (\<forall>rid now. e \<noteq> EvTrack rid now) \<Longrightarrow> no_first_track p e"
  by (cases e) simp_all

lemma readers_ok_step:
  assumes "readers_ok p"
  shows "readers_ok (player_step e p)"
proof (cases "e = EvDestroy \<or> (\<exists>rid now. e = EvTrack rid now)")
  case True
  then show ?thesis using assms by (auto simp: readers_ok_onTrack readers_ok_destroy)
next
  case False
  then have "no_first_track p e" by (intro no_first_track_other) simp_all
  from keeps_readers_ok [OF keeps_step [OF this] assms] show ?thesis .
qed

lemma readers_ok_fold: "readers_ok p \<Longrightarrow> readers_ok (fold player_step evs p)"
  by (induction evs arbitrary: p) (simp_all add: readers_ok_step)

lemma readers_ok_new: "readers_ok (MMXPlayer url t0)"
  by (simp add: readers_ok_def MMXPlayer_def)

lemma readers_ok_start:
  assumes "readers_ok p"
  shows "readers_ok (start hasHevc p)"
proof -
  let ?p0 = "p\<lparr>levels := (if hasHevc
                      then [with_fallback hevc1080 h2641080, with_fallback hevc720 h264720,
                            plain h264540, plain audio_variant]
                      else [plain h2641080, plain h264720, plain h264540,
                            plain audio_variant]),
           currentLevelIdx := 0\<rparr>"
  have "keeps_readers p (loadLevel 0 ?p0)"
    by (rule keeps_via [OF _ _ keeps_loadLevel]) simp_all
  from keeps_readers_ok [OF this assms] show ?thesis by (simp add: start_def)
qed

lemma attached_step:
  assumes "readers_ok p" "attached p" "e \<noteq> EvDestroy"
  shows "attached (player_step e p)"
proof (cases "\<exists>rid now. e = EvTrack rid now")
  case True
  then show ?thesis using assms by (auto simp: attached_onTrack)
next
  case False
  then have "no_first_track p e" using assms(3) by (intro no_first_track_other) simp_all
  from keeps_attached [OF keeps_step [OF this] assms(2)] show ?thesis .
qed

lemma attached_fold:
  "readers_ok p \<Longrightarrow> attached p \<Longrightarrow> EvDestroy \<notin> set evs \<Longrightarrow> attached (fold player_step evs p)"
proof (induction evs arbitrary: p)
  case Nil
  then show ?case by simp
next
  case (Cons e evs)
  have ne: "e \<noteq> EvDestroy" and rest: "EvDestroy \<notin> set evs" using Cons.prems(3) by auto
  have a: "attached (player_step e p)" by (rule attached_step [OF Cons.prems(1,2) ne])
  have r: "readers_ok (player_step e p)" by (rule readers_ok_step [OF Cons.prems(1)])
  show ?case using Cons.IH [OF r a rest] by simp
qed

lemma loadLevel_accepted:
  assumes "0 \<le> i" "i < int (length (levels p))"
    "\<not> (isSwitching p \<and> currentLevelIdx p = i \<and> \<not> activeLevelUsingFallback p)"
  shows "\<exists>ro. heap (loadLevel i p) = heap p @ [ro] \<and> \<not> ro_closed ro \<and> \<not> ro_trackHandled ro"
  using assms by (auto simp: loadLevel_def Let_def)

lemma open_readers_iff:
  "i \<in> set (open_readers h) = (i < length h \<and> \<not> ro_closed (h ! i))"
  by (auto simp: open_readers_def)

lemma two_readers:
  assumes "0 \<le> i" "i < int (length (levels p))"
    "\<not> (isSwitching p \<and> currentLevelIdx p = i \<and> \<not> activeLevelUsingFallback p)"
    "currentReader p = Some old" "old < length (heap p)" "\<not> ro_closed (heap p ! old)"
    "list_all (no_first_track p) evs"
  shows "currentReader (fold player_step evs (loadLevel i p)) = Some old"
    and "old \<in> set (open_readers (heap (fold player_step evs (loadLevel i p))))"
    and "length (heap p) \<in> set (open_readers (heap (fold player_step evs (loadLevel i p))))"
    and "\<not> ro_trackHandled (heap (fold player_step evs (loadLevel i p)) ! length (heap p))"
proof -
  let ?p1 = "loadLevel i p" and ?q = "fold player_step evs (loadLevel i p)"
  from loadLevel_accepted [OF assms(1-3)] obtain ro where
    ro: "heap ?p1 = heap p @ [ro]" "\<not> ro_closed ro" "\<not> ro_trackHandled ro" by blast
  have k0: "keeps_readers p ?p1" by (rule keeps_loadLevel)
  have "list_all (no_first_track ?p1) evs"
    using assms(7) no_first_track_mono [OF k0] by (simp add: list_all_iff)
  then have k1: "keeps_readers ?p1 ?q" by (rule keeps_fold)
  have n: "length (heap p) < length (heap ?p1)" using ro(1) by simp
  have o: "old < length (heap ?p1)" using assms(5) ro(1) by simp
  have ln: "length (heap ?p1) \<le> length (heap ?q)" by (rule keeps_length [OF k1])
  have e1: "heap ?q ! length (heap p) = ro"
    using keeps_nth [OF k1 n] ro(1) by simp
  have e2: "heap ?q ! old = heap p ! old"
    using keeps_nth [OF k1 o] ro(1) assms(5) by (simp add: nth_append)
  show "currentReader ?q = Some old"
    using k1 assms(4) by (simp add: keeps_readers_def loadLevel_keeps)
  show "old \<in> set (open_readers (heap ?q))"
    using e2 o ln assms(6) by (simp add: open_readers_iff)
  show "length (heap p) \<in> set (open_readers (heap ?q))"
    using e1 n ln ro(2) by (simp add: open_readers_iff)
  show "\<not> ro_trackHandled (heap ?q ! length (heap p))" using e1 ro(3) by simp
qed

lemma sc_loadLevel_closes:
  assumes "0 \<le> i" "i < int (length (sc_levels q))"
    "\<not> (sc_isSwitching q \<and> sc_currentLevelIdx q = i)"
    "sc_currentReader q = Some old" "old < length (sc_heap q)"
  shows "ro_closed (sc_heap (sc_loadLevel i q) ! old)"
    and "sc_currentReader (sc_loadLevel i q) = None"
    and "length (sc_heap (sc_loadLevel i q)) = Suc (length (sc_heap q))"
    and "\<not> ro_trackHandled (sc_heap (sc_loadLevel i q) ! length (sc_heap q))"
  using assms
  by (auto simp: sc_loadLevel_def Let_def close_reader_def nth_append)

lemma onTrack_closes:
  assumes "rid < length (heap p)" "\<not> ro_trackHandled (heap p ! rid)"
  shows "\<forall>j<length (heap p).
           ro_closed (heap (onTrack rid now p) ! j)
             = (ro_closed (heap p ! j) \<or> (currentReader p = Some j \<and> j \<noteq> rid))"
proof (intro allI impI)
  fix j assume j: "j < length (heap p)"
  show "ro_closed (heap (onTrack rid now p) ! j)
             = (ro_closed (heap p ! j) \<or> (currentReader p = Some j \<and> j \<noteq> rid))"
    using onTrack_first_heap(3) [OF assms j, of now] by simp
qed

lemma destroy_closes:
  "\<forall>j<length (heap p).
     ro_closed (heap (destroy p) ! j) = (ro_closed (heap p ! j) \<or> currentReader p = Some j)"
  by (simp add: destroy_heap)

text \<open>
  Claim C1, as stated, fails. In mixabr/mmxplayer.js, after a switch request and before
  the new reader's first track, the old reader (still the current one) and the new
  reader are both open: two concurrent WHEP sessions. In mmxplayer.js the old reader
  is closed by \<^verbatim>\<open>loadLevel\<close> itself, before the new reader has had a track, and no
  reader is current in between.
\<close>

theorem C1_counterexample:
  "open_readers (heap (fold player_step [EvTrack 0 5, EvLoadLevel 1]
      (start False (MMXPlayer ''http://h/'' 0)))) = [0, 1]
   \<and> currentReader (fold player_step [EvTrack 0 5, EvLoadLevel 1]
      (start False (MMXPlayer ''http://h/'' 0))) = Some 0
   \<and> map ro_trackHandled (heap (fold player_step [EvTrack 0 5, EvLoadLevel 1]
      (start False (MMXPlayer ''http://h/'' 0)))) = [True, False]
   \<and> map ro_closed (sc_heap (sc_loadLevel 1 (sc_onTrack 0 5
        (sc_start (sc_MMXPlayer ''http://h/live/sim/whep'' 0))))) = [True, False]
   \<and> sc_currentReader (sc_loadLevel 1 (sc_onTrack 0 5
        (sc_start (sc_MMXPlayer ''http://h/live/sim/whep'' 0)))) = None"
  by (simp add: open_readers_def onTrack_def start_def loadLevel_def MMXPlayer_def Let_def
      plain_def sc_onTrack_def sc_start_def sc_loadLevel_def sc_MMXPlayer_def
      SIMULCAST_LEVELS_def close_reader_def upt_rec)

text \<open>
  Claim C1, amended. In mixabr/mmxplayer.js \<^verbatim>\<open>loadLevel\<close> closes no reader and keeps
  the current one. The prior reader is closed in the new reader's first \<^verbatim>\<open>onTrack\<close>,
  which closes the current reader and nothing else and makes the new reader current;
  a later \<^verbatim>\<open>onTrack\<close> of the same reader changes nothing. \<^verbatim>\<open>destroy\<close> closes the
  current reader and nothing else. No other handler (\<^verbatim>\<open>loadLevel\<close>, \<^verbatim>\<open>onError\<close>,
  \<^verbatim>\<open>manualSwitch\<close>, a timer, the statistics interval with \<^verbatim>\<open>decideQuality\<close>)
  closes a reader or changes which reader is current, over any number of steps.
  So in a player that was constructed and started, whatever ran before and after
  \<^verbatim>\<open>start\<close>, once a reader is attached a reader stays attached at every moment
  until \<^verbatim>\<open>destroy\<close>: there is no interval with no reader attached
  between a switch request and the new track's arrival. And from a switch request
  until the first track of a reader, the player holds two open readers, the old one,
  still current, and the new one. In mmxplayer.js \<^verbatim>\<open>loadLevel\<close> instead closes the
  current reader and clears it before it constructs the new one.
\<close>

theorem C1_switch:
  "readers_ok (fold player_step post (start hasHevc (fold player_step pre (MMXPlayer url t))))
   \<and> (readers_ok p \<and> attached p \<and> EvDestroy \<notin> set evs \<longrightarrow>
          attached (fold player_step evs p))
   \<and> (list_all (no_first_track p) qs \<longrightarrow> keeps_readers p (fold player_step qs p))
   \<and> keeps_readers p (loadLevel i p)
   \<and> (0 \<le> i \<and> i < int (length (levels p))
        \<and> \<not> (isSwitching p \<and> currentLevelIdx p = i \<and> \<not> activeLevelUsingFallback p)
        \<and> currentReader p = Some old \<and> old < length (heap p)
        \<and> \<not> ro_closed (heap p ! old) \<and> list_all (no_first_track p) qs \<longrightarrow>
          currentReader (fold player_step qs (loadLevel i p)) = Some old
        \<and> old \<in> set (open_readers (heap (fold player_step qs (loadLevel i p))))
        \<and> length (heap p) \<in> set (open_readers (heap (fold player_step qs (loadLevel i p))))
        \<and> old \<noteq> length (heap p)
        \<and> \<not> ro_trackHandled (heap (fold player_step qs (loadLevel i p)) ! length (heap p)))
   \<and> (rid < length (heap p) \<and> \<not> ro_trackHandled (heap p ! rid) \<longrightarrow>
          currentReader (onTrack rid now p) = Some rid
        \<and> length (heap (onTrack rid now p)) = length (heap p)
        \<and> (\<forall>j<length (heap p).
              ro_closed (heap (onTrack rid now p) ! j)
                = (ro_closed (heap p ! j) \<or> (currentReader p = Some j \<and> j \<noteq> rid))))
   \<and> (rid \<ge> length (heap p) \<or> ro_trackHandled (heap p ! rid) \<longrightarrow> onTrack rid now p = p)
   \<and> currentReader (destroy p) = currentReader p
   \<and> length (heap (destroy p)) = length (heap p)
   \<and> (\<forall>j<length (heap p).
         ro_closed (heap (destroy p) ! j) = (ro_closed (heap p ! j) \<or> currentReader p = Some j))
   \<and> (0 \<le> i \<and> i < int (length (sc_levels q))
        \<and> \<not> (sc_isSwitching q \<and> sc_currentLevelIdx q = i)
        \<and> sc_currentReader q = Some old \<and> old < length (sc_heap q) \<longrightarrow>
          ro_closed (sc_heap (sc_loadLevel i q) ! old)
        \<and> sc_currentReader (sc_loadLevel i q) = None
        \<and> \<not> ro_trackHandled (sc_heap (sc_loadLevel i q) ! length (sc_heap q)))"
proof (intro conjI impI)
  show "readers_ok (fold player_step post (start hasHevc
          (fold player_step pre (MMXPlayer url t))))"
    by (rule readers_ok_fold [OF readers_ok_start [OF readers_ok_fold [OF readers_ok_new]]])
next
  assume "readers_ok p \<and> attached p \<and> EvDestroy \<notin> set evs"
  then show "attached (fold player_step evs p)" by (simp add: attached_fold)
next
  assume "list_all (no_first_track p) qs"
  then show "keeps_readers p (fold player_step qs p)" by (rule keeps_fold)
next
  show "keeps_readers p (loadLevel i p)" by (rule keeps_loadLevel)
next
  assume a: "0 \<le> i \<and> i < int (length (levels p))
        \<and> \<not> (isSwitching p \<and> currentLevelIdx p = i \<and> \<not> activeLevelUsingFallback p)
        \<and> currentReader p = Some old \<and> old < length (heap p)
        \<and> \<not> ro_closed (heap p ! old) \<and> list_all (no_first_track p) qs"
  then have a1: "0 \<le> i" and a2: "i < int (length (levels p))"
    and a3: "\<not> (isSwitching p \<and> currentLevelIdx p = i \<and> \<not> activeLevelUsingFallback p)"
    and a4: "currentReader p = Some old" and a5: "old < length (heap p)"
    and a6: "\<not> ro_closed (heap p ! old)" and a7: "list_all (no_first_track p) qs"
    by simp_all
  show "currentReader (fold player_step qs (loadLevel i p)) = Some old"
    by (rule two_readers(1) [OF a1 a2 a3 a4 a5 a6 a7])
  show "old \<in> set (open_readers (heap (fold player_step qs (loadLevel i p))))"
    by (rule two_readers(2) [OF a1 a2 a3 a4 a5 a6 a7])
  show "length (heap p) \<in> set (open_readers (heap (fold player_step qs (loadLevel i p))))"
    by (rule two_readers(3) [OF a1 a2 a3 a4 a5 a6 a7])
  show "old \<noteq> length (heap p)" using a5 by simp
  show "\<not> ro_trackHandled (heap (fold player_step qs (loadLevel i p)) ! length (heap p))"
    by (rule two_readers(4) [OF a1 a2 a3 a4 a5 a6 a7])
next
  assume a: "rid < length (heap p) \<and> \<not> ro_trackHandled (heap p ! rid)"
  then have a1: "rid < length (heap p)" and a2: "\<not> ro_trackHandled (heap p ! rid)"
    by simp_all
  show "currentReader (onTrack rid now p) = Some rid"
    by (rule onTrack_first_heap(2) [OF a1 a2])
  show "length (heap (onTrack rid now p)) = length (heap p)"
    by (rule onTrack_first_heap(1) [OF a1 a2])
  show "\<forall>j<length (heap p).
              ro_closed (heap (onTrack rid now p) ! j)
                = (ro_closed (heap p ! j) \<or> (currentReader p = Some j \<and> j \<noteq> rid))"
    by (rule onTrack_closes [OF a1 a2])
next
  assume "rid \<ge> length (heap p) \<or> ro_trackHandled (heap p ! rid)"
  then show "onTrack rid now p = p" by (rule onTrack_again)
next
  show "currentReader (destroy p) = currentReader p" by (rule destroy_heap(1))
  show "length (heap (destroy p)) = length (heap p)" by (rule destroy_heap(2))
  show "\<forall>j<length (heap p).
         ro_closed (heap (destroy p) ! j) = (ro_closed (heap p ! j) \<or> currentReader p = Some j)"
    by (rule destroy_closes)
next
  assume a: "0 \<le> i \<and> i < int (length (sc_levels q))
        \<and> \<not> (sc_isSwitching q \<and> sc_currentLevelIdx q = i)
        \<and> sc_currentReader q = Some old \<and> old < length (sc_heap q)"
  then have a1: "0 \<le> i" and a2: "i < int (length (sc_levels q))"
    and a3: "\<not> (sc_isSwitching q \<and> sc_currentLevelIdx q = i)"
    and a4: "sc_currentReader q = Some old" and a5: "old < length (sc_heap q)" by simp_all
  show "ro_closed (sc_heap (sc_loadLevel i q) ! old)"
    by (rule sc_loadLevel_closes(1) [OF a1 a2 a3 a4 a5])
  show "sc_currentReader (sc_loadLevel i q) = None"
    by (rule sc_loadLevel_closes(2) [OF a1 a2 a3 a4 a5])
  show "\<not> ro_trackHandled (sc_heap (sc_loadLevel i q) ! length (sc_heap q))"
    by (rule sc_loadLevel_closes(4) [OF a1 a2 a3 a4 a5])
qed

theorem C1_switch_witness:
  "readers_ok playing_1080 \<and> attached playing_1080
   \<and> EvDestroy \<notin> set degrading
   \<and> attached (fold player_step degrading playing_1080)
   \<and> currentReader (fold player_step degrading playing_1080) = Some 1
   \<and> map ro_closed (heap (fold player_step degrading playing_1080)) = [True, False]
   \<and> list_all (no_first_track playing_1080) [EvError 1 9, EvTick True, EvTrack 0 7]
   \<and> currentReader (fold player_step [EvError 1 9, EvTick True, EvTrack 0 7]
        (loadLevel 1 playing_1080)) = Some 0
   \<and> open_readers (heap (fold player_step [EvError 1 9, EvTick True, EvTrack 0 7]
        (loadLevel 1 playing_1080))) = [0, 1]
   \<and> map ro_closed (heap (onTrack 1 9 (loadLevel 1 playing_1080))) = [True, False]
   \<and> currentReader (onTrack 1 9 (loadLevel 1 playing_1080)) = Some 1
   \<and> onTrack 0 7 playing_1080 = playing_1080
   \<and> map ro_closed (heap (destroy playing_1080)) = [True]
   \<and> map ro_closed (sc_heap (sc_loadLevel 1 sc_playing_high)) = [True, False]
   \<and> sc_currentReader (sc_loadLevel 1 sc_playing_high) = None"
  using C1_switch [where pre = "[]" and post = "[EvTrack 0 5]" and hasHevc = False
      and url = "''http://h/''"
      and t = 0 and p = playing_1080 and evs = degrading
      and qs = "[EvError 1 9, EvTick True, EvTrack 0 7]"
      and i = 1 and old = 0 and rid = 0 and now = 7 and q = sc_playing_high]
    C1_switch [where pre = "[]" and post = "[]" and hasHevc = False and url = "''http://h/''"
      and t = 0 and p = "loadLevel 1 playing_1080" and evs = "[]" and qs = "[]"
      and i = 1 and old = 0 and rid = 1 and now = 9 and q = sc_playing_high]
  by (simp add: playing_1080_def sc_playing_high_def open_readers_def onTrack_def start_def
      loadLevel_def MMXPlayer_def Let_def plain_def sc_onTrack_def sc_start_def
      sc_loadLevel_def sc_MMXPlayer_def SIMULCAST_LEVELS_def close_reader_def upt_rec
      onError_def penalizeLevel_def destroy_def endsWith_def onStats_def decideQuality_def
      poor_network_def decideQuality_down_def decideQuality_up_def isLevelBanned_def
      SWITCH_COOLDOWN_def statsTick_def HONEYMOON_TIME_def DOWNGRADE_LOSS_def
      DOWNGRADE_RTT_def DOWNGRADE_FPS_def h2641080_def h264720_def readers_ok_def
      attached_def keeps_readers_def BASE_PENALTY_TIME_def MAX_PENALTY_TIME_def
      degrading_def)

section \<open>Penalties of the adaptive player\<close>

lemma onError_penalty:
  assumes "rid < length (heap p)" "ro_index (heap p ! rid) = L"
    "lv_fallback (levels p ! nat L) = None \<or> activeLevelUsingFallback p"
  shows "failureCounts (onError rid now p) L
           = Some ((case failureCounts p L of None \<Rightarrow> 0 | Some c \<Rightarrow> c) + 1)"
    and "penaltyBox (onError rid now p) L
           = Some (now + min (60000 * 2 ^ (case failureCounts p L of None \<Rightarrow> 0 | Some c \<Rightarrow> c))
                             300000)"
  using assms
  by (auto simp: onError_def penalizeLevel_def Let_def BASE_PENALTY_TIME_def
      MAX_PENALTY_TIME_def min_def)

lemma onError_fallback:
  assumes "rid < length (heap p)" "ro_index (heap p ! rid) = L"
    "lv_fallback (levels p ! nat L) \<noteq> None" "\<not> activeLevelUsingFallback p"
  shows "onError rid now p = p\<lparr>activeLevelUsingFallback := True, isSwitching := False,
                  timers := timers p @ [(100, LoadLevel L)]\<rparr>"
  using assms by (simp add: onError_def Let_def)

lemma manualSwitch_clears:
  assumes "levelId \<noteq> ''auto''"
    "findIndex (\<lambda>l. sv_id (lv_variant l) = levelId) (levels p) = L" "L \<noteq> -1"
  shows "failureCounts (manualSwitch levelId p) L = Some 0"
    and "penaltyBox (manualSwitch levelId p) L = None"
  using assms by (simp_all add: manualSwitch_def Let_def loadLevel_keeps)

text \<open>
  Claim C4, as stated, fails. In mixabr/mmxplayer.js the first failure at level 0 at
  time 1000 bans the level until 61000 (base 60 s), not until 31000 (base 30 s); and
  when the level has a fallback stream that is not yet in use, the failure is not
  counted at all. mmxplayer.js, whose constants are 30 s and 120 s, never counts a
  failure and never bans a level.
\<close>

theorem C4_penalty_counterexample:
  "failureCounts (onError 0 1000 (start False (MMXPlayer ''http://h/'' 0))) 0 = Some 1
   \<and> penaltyBox (onError 0 1000 (start False (MMXPlayer ''http://h/'' 0))) 0 = Some 61000
   \<and> 1000 + min (30000 * 2 ^ (1 - 1)) 120000 = (31000 :: int)
   \<and> failureCounts (onError 0 1000 (start True (MMXPlayer ''http://h/'' 0))) 0 = None
   \<and> penaltyBox (onError 0 1000 (start True (MMXPlayer ''http://h/'' 0))) 0 = None
   \<and> sc_failureCounts (sc_onError 0 (sc_start (sc_MMXPlayer ''http://h/live/sim/whep'' 0))) 0
       = None
   \<and> sc_penaltyBox (sc_onError 0 (sc_start (sc_MMXPlayer ''http://h/live/sim/whep'' 0))) 0
       = None"
  by (simp add: onError_def penalizeLevel_def start_def loadLevel_def MMXPlayer_def Let_def
      plain_def with_fallback_def BASE_PENALTY_TIME_def MAX_PENALTY_TIME_def
      sc_onError_def sc_start_def sc_loadLevel_def sc_MMXPlayer_def SIMULCAST_LEVELS_def)

text \<open>
  Claim C4, amended, for mixabr/mmxplayer.js. For every failed connection attempt at
  level \<open>L\<close> (a call of the reader's \<^verbatim>\<open>onError\<close>) that finds no untried fallback
  stream, the player increments \<^verbatim>\<open>failureCounts[L]\<close> and bans \<open>L\<close> until
  \<open>now + min (BASE * 2 ^ (failureCounts[L] - 1)) MAX\<close> with \<open>BASE\<close> = 60 s and \<open>MAX\<close> =
  300 s; a failure of the primary stream of a level that has a fallback changes
  neither and schedules the retry with the fallback; and a manual switch to \<open>L\<close>
  sets its failure count to 0 and removes its ban.
\<close>

theorem C4_penalty:
  "(rid < length (heap p) \<and> ro_index (heap p ! rid) = L
      \<and> (lv_fallback (levels p ! nat L) = None \<or> activeLevelUsingFallback p) \<longrightarrow>
        failureCounts (onError rid now p) L
          = Some ((case failureCounts p L of None \<Rightarrow> 0 | Some c \<Rightarrow> c) + 1)
      \<and> penaltyBox (onError rid now p) L
          = Some (now + min (60000 * 2 ^ ((case failureCounts p L of None \<Rightarrow> 0 | Some c \<Rightarrow> c)
                                            + 1 - 1)) 300000))
   \<and> (rid < length (heap p) \<and> ro_index (heap p ! rid) = L
      \<and> lv_fallback (levels p ! nat L) \<noteq> None \<and> \<not> activeLevelUsingFallback p \<longrightarrow>
        failureCounts (onError rid now p) = failureCounts p
      \<and> penaltyBox (onError rid now p) = penaltyBox p
      \<and> activeLevelUsingFallback (onError rid now p)
      \<and> timers (onError rid now p) = timers p @ [(100, LoadLevel L)])
   \<and> (levelId \<noteq> ''auto''
      \<and> findIndex (\<lambda>l. sv_id (lv_variant l) = levelId) (levels p) = L \<and> L \<noteq> -1 \<longrightarrow>
        failureCounts (manualSwitch levelId p) L = Some 0
      \<and> penaltyBox (manualSwitch levelId p) L = None)"
proof (intro conjI impI)
  assume a: "rid < length (heap p) \<and> ro_index (heap p ! rid) = L
      \<and> (lv_fallback (levels p ! nat L) = None \<or> activeLevelUsingFallback p)"
  then have a1: "rid < length (heap p)" and a2: "ro_index (heap p ! rid) = L"
    and a3: "lv_fallback (levels p ! nat L) = None \<or> activeLevelUsingFallback p" by simp_all
  show "failureCounts (onError rid now p) L
          = Some ((case failureCounts p L of None \<Rightarrow> 0 | Some c \<Rightarrow> c) + 1)"
    by (rule onError_penalty(1) [OF a1 a2 a3])
  show "penaltyBox (onError rid now p) L
          = Some (now + min (60000 * 2 ^ ((case failureCounts p L of None \<Rightarrow> 0 | Some c \<Rightarrow> c)
                                            + 1 - 1)) 300000)"
    using onError_penalty(2) [OF a1 a2 a3, of now] by simp
next
  assume a: "rid < length (heap p) \<and> ro_index (heap p ! rid) = L
      \<and> lv_fallback (levels p ! nat L) \<noteq> None \<and> \<not> activeLevelUsingFallback p"
  then have e: "onError rid now p = p\<lparr>activeLevelUsingFallback := True, isSwitching := False,
                  timers := timers p @ [(100, LoadLevel L)]\<rparr>"
    by (intro onError_fallback) simp_all
  show "failureCounts (onError rid now p) = failureCounts p" unfolding e by simp
  show "penaltyBox (onError rid now p) = penaltyBox p" unfolding e by simp
  show "activeLevelUsingFallback (onError rid now p)" unfolding e by simp
  show "timers (onError rid now p) = timers p @ [(100, LoadLevel L)]" unfolding e by simp
next
  assume a: "levelId \<noteq> ''auto''
      \<and> findIndex (\<lambda>l. sv_id (lv_variant l) = levelId) (levels p) = L \<and> L \<noteq> -1"
  then show "failureCounts (manualSwitch levelId p) L = Some 0"
    and "penaltyBox (manualSwitch levelId p) L = None"
    using manualSwitch_clears [of levelId p L] by simp_all
qed

theorem C4_penalty_witness:
  "failureCounts (onError 0 1000 (start False (MMXPlayer ''http://h/'' 0))) 0 = Some 1
   \<and> penaltyBox (onError 0 1000 (start False (MMXPlayer ''http://h/'' 0))) 0 = Some 61000
   \<and> failureCounts failing_twice 0 = Some 2
   \<and> penaltyBox failing_twice 0 = Some 122000
   \<and> timers (onError 0 1000 (start True (MMXPlayer ''http://h/'' 0))) = [(100, LoadLevel 0)]
   \<and> failureCounts (manualSwitch ''1080p'' failing_twice) 0 = Some 0
   \<and> penaltyBox (manualSwitch ''1080p'' failing_twice) 0 = None"
  using C4_penalty [of 0 "start False (MMXPlayer ''http://h/'' 0)" 0 1000 "''1080p''"]
    C4_penalty [of 0 "onError 0 1000 (start False (MMXPlayer ''http://h/'' 0))" 0 2000 "''1080p''"]
    C4_penalty [of 0 "start True (MMXPlayer ''http://h/'' 0)" 0 1000 "''1080p''"]
    C4_penalty [of 0 failing_twice 0 0 "''1080p''"]
  by (simp add: failing_twice_def onError_def penalizeLevel_def start_def loadLevel_def
      MMXPlayer_def Let_def plain_def with_fallback_def BASE_PENALTY_TIME_def
      MAX_PENALTY_TIME_def manualSwitch_def h2641080_def hevc1080_def)

section \<open>Parsing a transcoder source string\<close>

lemma LastIndexByte_ge: "-1 \<le> LastIndexByte s c"
  by (induction s) (auto simp: Let_def)

lemma LastIndexByte_none: "(LastIndexByte s c = -1) = (c \<notin> set s)"
proof (induction s)
  case Nil
  show ?case by simp
next
  case (Cons x xs)
  have "-1 \<le> LastIndexByte xs c" by (rule LastIndexByte_ge)
  then have "LastIndexByte xs c + 1 \<noteq> -1" by arith
  with Cons show ?case by (auto simp: Let_def)
qed

lemma LastIndexByte_append:
  "c \<notin> set b \<Longrightarrow> LastIndexByte (a @ c # b) c = int (length a)"
proof (induction a)
  case Nil
  then show ?case using LastIndexByte_none [of b c] by (simp add: Let_def)
next
  case (Cons x xs)
  then show ?case by (simp add: Let_def)
qed

lemma HasPrefix_append: "HasPrefix (p @ r) p"
  by (simp add: HasPrefix_def)

lemma HasPrefix_iff: "HasPrefix s p = (\<exists>r. s = p @ r)"
  unfolding HasPrefix_def
  by (metis append_eq_conv_conj append_take_drop_id length_append le_add1)

text \<open>
  Claim C9: \<^verbatim>\<open>ParseTranscoderSource\<close> splits at the last colon. For every input path
  and every output path without a colon, parsing
  \<^verbatim>\<open>"transcoder:" + inputPath + ":" + outputPath\<close> returns
  \<open>(inputPath, outputPath, true)\<close>; and the result's \<open>ok\<close> is false exactly for the
  strings that do not start with \<^verbatim>\<open>"transcoder:"\<close> or have no colon after that
  prefix.
\<close>

theorem C9_ParseTranscoderSource:
  "(CHR '':'' \<notin> set outputPath \<longrightarrow>
      ParseTranscoderSource (''transcoder:'' @ inputPath @ '':'' @ outputPath)
        = (inputPath, outputPath, True))
   \<and> (snd (snd (ParseTranscoderSource s)) = False) =
       (\<not> (\<exists>rest. s = ''transcoder:'' @ rest \<and> CHR '':'' \<in> set rest))"
proof (intro conjI impI)
  assume nc: "CHR '':'' \<notin> set outputPath"
  let ?src = "''transcoder:'' @ inputPath @ '':'' @ outputPath"
  have hp: "HasPrefix ?src ''transcoder:''" by (rule HasPrefix_append)
  have dr: "drop (length ''transcoder:'') ?src = inputPath @ CHR '':'' # outputPath"
    by simp
  have li: "LastIndexByte (inputPath @ CHR '':'' # outputPath) (CHR '':'')
            = int (length inputPath)"
    using nc by (rule LastIndexByte_append)
  show "ParseTranscoderSource ?src = (inputPath, outputPath, True)"
    unfolding ParseTranscoderSource_def using hp
    by (simp only: dr li Let_def) (simp add: nat_add_distrib)
next
  show "(snd (snd (ParseTranscoderSource s)) = False) =
       (\<not> (\<exists>rest. s = ''transcoder:'' @ rest \<and> CHR '':'' \<in> set rest))"
  proof (cases "HasPrefix s ''transcoder:''")
    case False
    then show ?thesis unfolding ParseTranscoderSource_def
      by (auto simp: HasPrefix_iff)
  next
    case True
    then obtain r where r: "s = ''transcoder:'' @ r" by (auto simp: HasPrefix_iff)
    have "drop (length ''transcoder:'') s = r" using r by simp
    then show ?thesis unfolding ParseTranscoderSource_def using True r
      by (simp add: Let_def LastIndexByte_none del: append.simps)
  qed
qed

theorem C9_ParseTranscoderSource_witness:
  "CHR '':'' \<notin> set ''out''
   \<and> ParseTranscoderSource ''transcoder:live:in:out'' = (''live:in'', ''out'', True)
   \<and> snd (snd (ParseTranscoderSource ''transcoder:nocolon'')) = False"
  using C9_ParseTranscoderSource [of "''out''" "''live:in''" "''transcoder:nocolon''"]
  by simp

end
